theory Spec2Isabelle
  imports Complex_Main "HOL-Library.Sublist" "HOL-Library.Log_Nat"
begin

section \<open>Strings\<close>

text \<open>
  A Python \<open>str\<close> is modelled as a \<open>string\<close> whose characters are the code points
  0..255 (Latin-1). The character tables below are those of Python 3 on that range.
\<close>

definition lower_char :: "char \<Rightarrow> char" where
  \<comment> \<open>\<open>str.lower()\<close> on one code point below 256: A-Z and the accented capitals
      (U+00C0..U+00DE without the multiplication sign U+00D7) move up by 32.\<close>
  "lower_char c =
     (let n = (of_char c :: nat)
      in if (65 \<le> n \<and> n \<le> 90) \<or> (192 \<le> n \<and> n \<le> 214) \<or> (216 \<le> n \<and> n \<le> 222)
         then char_of (n + 32) else c)"

definition lower :: "string \<Rightarrow> string" where
  "lower s = map lower_char s"

fun contains :: "string \<Rightarrow> string \<Rightarrow> bool" where
  \<comment> \<open>\<open>contains kw text\<close> is Python's \<open>kw in text\<close> on strings.\<close>
  "contains kw [] = (kw = [])"
| "contains kw (c # cs) = (prefix kw (c # cs) \<or> contains kw cs)"

section \<open>Floating point\<close>

text \<open>
  A Python \<open>float\<close> is an IEEE 754 binary64 value: a finite double, modelled by the
  rational number it denotes, an infinity or NaN. The two zeros are not told apart.
  A literal, a product and a sum of finite doubles are rounded to the nearest double,
  ties to even, by \<open>double_of\<close>, which rounds as if the exponent had no upper bound
  (subnormal results are rounded on the fixed grid \<open>2^-1074\<close>); \<open>to_float\<close> then
  turns a result beyond the largest double, \<open>(2^53 - 1) * 2^971\<close>, into an infinity:
  the rounded values beyond it are those of magnitude \<open>2^1024\<close> or more. Every
  comparison with NaN is false.
\<close>

datatype pyfloat = Finite rat | PInf | NInf | NaN

definition pow2 :: "int \<Rightarrow> rat" where
  "pow2 e = (if 0 \<le> e then 2 ^ nat e else 1 / 2 ^ nat (- e))"

definition floor_log2 :: "rat \<Rightarrow> int" where
  \<comment> \<open>for \<open>q > 0\<close>: the \<open>e\<close> with \<open>2^e \<le> q < 2^(e+1)\<close>\<close>
  "floor_log2 q =
     (if 1 \<le> q then int (floorlog 2 (nat \<lfloor>q\<rfloor>)) - 1
      else - int (floorlog 2 (nat (\<lceil>1 / q\<rceil> - 1))))"

definition round_half_even :: "rat \<Rightarrow> int" where
  "round_half_even x =
     (let f = \<lfloor>x\<rfloor>; d = x - of_int f
      in if d < 1 / 2 then f else if 1 / 2 < d then f + 1
         else if even f then f else f + 1)"

definition double_of :: "rat \<Rightarrow> rat" where
  "double_of q =
     (if q = 0 then 0
      else let e = max (floor_log2 \<bar>q\<bar>) (- 1022); u = pow2 (e - 52)
           in sgn q * of_int (round_half_even (\<bar>q\<bar> / u)) * u)"

definition to_float :: "rat \<Rightarrow> pyfloat" where
  "to_float q =
     (let r = double_of q
      in if r = 0 \<or> floor_log2 \<bar>r\<bar> < 1024 then Finite r
         else if 0 < r then PInf else NInf)"

fun fsign :: "pyfloat \<Rightarrow> int" where
  "fsign (Finite a) = (if 0 < a then 1 else if a < 0 then - 1 else 0)"
| "fsign PInf = 1"
| "fsign NInf = - 1"
| "fsign NaN = 0"

fun fmul :: "pyfloat \<Rightarrow> pyfloat \<Rightarrow> pyfloat" where
  "fmul NaN y = NaN"
| "fmul x NaN = NaN"
| "fmul (Finite a) (Finite b) = to_float (a * b)"
| "fmul x y =
     (let s = fsign x * fsign y in if s = 0 then NaN else if 0 < s then PInf else NInf)"

fun fadd :: "pyfloat \<Rightarrow> pyfloat \<Rightarrow> pyfloat" where
  "fadd NaN y = NaN"
| "fadd x NaN = NaN"
| "fadd (Finite a) (Finite b) = to_float (a + b)"
| "fadd PInf NInf = NaN"
| "fadd NInf PInf = NaN"
| "fadd PInf y = PInf"
| "fadd x PInf = PInf"
| "fadd NInf y = NInf"
| "fadd x NInf = NInf"

fun fle :: "pyfloat \<Rightarrow> pyfloat \<Rightarrow> bool" where
  \<comment> \<open>\<open>a <= b\<close>\<close>
  "fle NaN y = False"
| "fle x NaN = False"
| "fle (Finite a) (Finite b) = (a \<le> b)"
| "fle NInf y = True"
| "fle x PInf = True"
| "fle x y = False"

fun flt :: "pyfloat \<Rightarrow> pyfloat \<Rightarrow> bool" where
  \<comment> \<open>\<open>a < b\<close>\<close>
  "flt NaN y = False"
| "flt x NaN = False"
| "flt (Finite a) (Finite b) = (a < b)"
| "flt PInf y = False"
| "flt x NInf = False"
| "flt x y = True"

definition py_max :: "pyfloat \<Rightarrow> pyfloat \<Rightarrow> pyfloat" where
  \<comment> \<open>Python's \<open>max(a, b)\<close> keeps \<open>a\<close> unless \<open>b > a\<close>; with \<open>a\<close> NaN it is NaN\<close>
  "py_max a b = (if flt a b then b else a)"

section \<open>Scam detector (detector.py)\<close>

definition detector_SUSPICIOUS_KEYWORDS :: "string list" where
  "detector_SUSPICIOUS_KEYWORDS =
     [''urgent'', ''verify'', ''account'', ''blocked'', ''suspended'', ''kyc'',
      ''refund'', ''debit'', ''credit'', ''bank'', ''upi'', ''money'']"

definition STRONG_KEYWORDS :: "string list" where
  \<comment> \<open>a Python set; it is only tested with \<open>any\<close>, so the order is immaterial\<close>
  "STRONG_KEYWORDS = [''otp'', ''upi pin'', ''pin'', ''one time password'']"

definition hits :: "string \<Rightarrow> nat" where
  \<comment> \<open>\<open>sum(1 for kw in SUSPICIOUS_KEYWORDS if kw in text)\<close>\<close>
  "hits text = length (filter (\<lambda>kw. contains kw text) detector_SUSPICIOUS_KEYWORDS)"

definition any_strong :: "string \<Rightarrow> bool" where
  \<comment> \<open>\<open>any(sk in text for sk in STRONG_KEYWORDS)\<close>\<close>
  "any_strong text = list_ex (\<lambda>sk. contains sk text) STRONG_KEYWORDS"

text \<open>
  \<open>detect_scam is_render model text\<close>: \<open>is_render\<close> is the module constant
  \<open>IS_RENDER\<close>; \<open>model\<close> is the text-classification pipeline, which returns the label
  and the score of its first result, or fails (\<open>None\<close>), in which case the exception
  leaves \<open>detect_scam\<close>.
\<close>

definition detect_scam ::
  "bool \<Rightarrow> (string \<Rightarrow> (string \<times> pyfloat) option) \<Rightarrow> string \<Rightarrow> (bool \<times> pyfloat) option" where
  "detect_scam is_render model text0 =
     (let text = lower text0
      in if is_render then
           (if any_strong text then Some (True, Finite (double_of (9 / 10)))
            else if 2 \<le> hits text then Some (True, Finite (double_of (7 / 10)))
            else Some (False, Finite 0))
         else
           (case model text of
              None \<Rightarrow> None
            | Some (label0, score0) \<Rightarrow>
                let label = lower label0;
                    is_scam = (contains ''phish'' label \<or> contains ''spam'' label
                               \<or> contains ''fraud'' label);
                    (is_scam, score) =
                      (if any_strong text
                       then (True, py_max score0 (Finite (double_of (85 / 100))))
                       else (is_scam, score0));
                    (is_scam, score) =
                      (if 2 \<le> hits text
                       then (True, py_max score (Finite (double_of (6 / 10))))
                       else (is_scam, score))
                in Some (is_scam, if is_scam then score else Finite 0)))"

section \<open>Regular expressions (the fragment of Python's \<open>re\<close> used by extract.py)\<close>

definition is_digit :: "char \<Rightarrow> bool" where
  \<comment> \<open>\<open>\d\<close>: the only decimal digits below 256 are 0-9\<close>
  "is_digit c = (let n = (of_char c :: nat) in 48 \<le> n \<and> n \<le> 57)"

definition is_ascii_letter :: "char \<Rightarrow> bool" where
  \<comment> \<open>\<open>[a-zA-Z]\<close>\<close>
  "is_ascii_letter c =
     (let n = (of_char c :: nat) in (65 \<le> n \<and> n \<le> 90) \<or> (97 \<le> n \<and> n \<le> 122))"

definition is_space :: "char \<Rightarrow> bool" where
  \<comment> \<open>\<open>\s\<close> on a \<open>str\<close> pattern: tab..carriage return, the separators U+001C..U+001F,
      space, U+0085 and U+00A0\<close>
  "is_space c =
     (let n = (of_char c :: nat)
      in (9 \<le> n \<and> n \<le> 13) \<or> (28 \<le> n \<and> n \<le> 32) \<or> n = 133 \<or> n = 160)"

definition is_word :: "char \<Rightarrow> bool" where
  \<comment> \<open>\<open>\w\<close> on a \<open>str\<close> pattern: the underscore and every code point with
      \<open>str.isalnum()\<close>\<close>
  "is_word c =
     (let n = (of_char c :: nat)
      in (48 \<le> n \<and> n \<le> 57) \<or> (65 \<le> n \<and> n \<le> 90) \<or> n = 95 \<or> (97 \<le> n \<and> n \<le> 122)
         \<or> n = 170 \<or> n = 178 \<or> n = 179 \<or> n = 181 \<or> n = 185 \<or> n = 186
         \<or> (188 \<le> n \<and> n \<le> 190) \<or> (192 \<le> n \<and> n \<le> 214) \<or> (216 \<le> n \<and> n \<le> 246)
         \<or> (248 \<le> n \<and> n \<le> 255))"

datatype re =
    Lit string                           \<comment> \<open>literal characters\<close>
  | Cls "char \<Rightarrow> bool"                    \<comment> \<open>one character of a class\<close>
  | Rep "char \<Rightarrow> bool" nat "nat option"   \<comment> \<open>greedy \<open>X{m,n}\<close>, \<open>X{m,}\<close> of a class \<open>X\<close>\<close>
  | Opt re                               \<comment> \<open>greedy \<open>r?\<close>\<close>
  | Alt re re                            \<comment> \<open>\<open>r|s\<close>\<close>
  | Seq re re                            \<comment> \<open>\<open>rs\<close>\<close>
  | WordB                                \<comment> \<open>\<open>\b\<close>\<close>

definition word_before :: "char option \<Rightarrow> bool" where
  "word_before prev = (case prev of None \<Rightarrow> False | Some c \<Rightarrow> is_word c)"

definition word_after :: "string \<Rightarrow> bool" where
  "word_after s = (case s of [] \<Rightarrow> False | c # _ \<Rightarrow> is_word c)"

definition prev_after :: "char option \<Rightarrow> string \<Rightarrow> nat \<Rightarrow> char option" where
  \<comment> \<open>the character before the position reached after \<open>n\<close> characters of \<open>s\<close>\<close>
  "prev_after prev s n = (if n = 0 then prev else Some (s ! (n - 1)))"

text \<open>
  \<open>rmatch r prev s\<close>: the lengths of the matches of \<open>r\<close> at the start of \<open>s\<close>, in the
  order in which the backtracking matcher tries them; \<open>prev\<close> is the character before
  \<open>s\<close> in the subject (\<open>None\<close> at its start). The match \<open>re\<close> reports is the first.
\<close>

fun rmatch :: "re \<Rightarrow> char option \<Rightarrow> string \<Rightarrow> nat list" where
  "rmatch (Lit l) prev s = (if prefix l s then [length l] else [])"
| "rmatch (Cls P) prev s = (case s of [] \<Rightarrow> [] | c # _ \<Rightarrow> if P c then [1] else [])"
| "rmatch (Rep P m mx) prev s =
     (let run = length (takeWhile P s);
          k = (case mx of None \<Rightarrow> run | Some M \<Rightarrow> min M run)
      in rev [m..<Suc k])"
| "rmatch (Opt r) prev s = rmatch r prev s @ [0]"
| "rmatch (Alt r1 r2) prev s = rmatch r1 prev s @ rmatch r2 prev s"
| "rmatch (Seq r1 r2) prev s =
     concat (map (\<lambda>n. map ((+) n) (rmatch r2 (prev_after prev s n) (drop n s)))
                 (rmatch r1 prev s))"
| "rmatch WordB prev s = (if word_before prev \<noteq> word_after s then [0] else [])"

text \<open>
  \<open>scan r k prev s\<close> is the loop of \<open>findall\<close>: \<open>k\<close> characters of \<open>s\<close> still belong to
  the match found last and are skipped; after them the pattern is tried at every
  position from left to right. None of the four patterns below matches the empty
  string, and for such patterns this is \<open>Pattern.findall\<close>; an empty match is
  recorded and the scan moves on by one character.
\<close>

fun scan :: "re \<Rightarrow> nat \<Rightarrow> char option \<Rightarrow> string \<Rightarrow> string list" where
  "scan r k prev [] =
     (if k = 0 then (case rmatch r prev [] of [] \<Rightarrow> [] | n # _ \<Rightarrow> [[]]) else [])"
| "scan r (Suc k) prev (c # cs) = scan r k (Some c) cs"
| "scan r 0 prev (c # cs) =
     (case rmatch r prev (c # cs) of
        [] \<Rightarrow> scan r 0 (Some c) cs
      | n # _ \<Rightarrow> take n (c # cs) # scan r (n - 1) (Some c) cs)"

definition findall :: "re \<Rightarrow> string \<Rightarrow> string list" where
  "findall r text = scan r 0 None text"

section \<open>Intelligence extractor (extract.py)\<close>

definition BANK_ACCOUNT_PATTERN :: re where
  \<comment> \<open>\<open>\b\d{9,18}\b\<close>\<close>
  "BANK_ACCOUNT_PATTERN = Seq WordB (Seq (Rep is_digit 9 (Some 18)) WordB)"

definition UPI_PATTERN :: re where
  \<comment> \<open>\<open>\b[a-zA-Z0-9.\-_]{3,}@[a-zA-Z]{2,}\b\<close>\<close>
  "UPI_PATTERN =
     Seq WordB
       (Seq (Rep (\<lambda>c. is_ascii_letter c \<or> is_digit c \<or> c \<in> set ''.-_'') 3 None)
         (Seq (Lit ''@'') (Seq (Rep is_ascii_letter 2 None) WordB)))"

definition PHONE_PATTERN :: re where
  \<comment> \<open>\<open>(?:\+91[-\s]?|0)?[6-9]\d{9}\b\<close>\<close>
  "PHONE_PATTERN =
     Seq (Opt (Alt (Seq (Lit ''+91'') (Opt (Cls (\<lambda>c. c = CHR ''-'' \<or> is_space c))))
                   (Lit ''0'')))
       (Seq (Cls (\<lambda>c. c \<in> set ''6789''))
         (Seq (Rep is_digit 9 (Some 9)) WordB))"

definition URL_PATTERN :: re where
  \<comment> \<open>\<open>https?://[^\s"'>]+\<close>\<close>
  "URL_PATTERN =
     Seq (Lit ''http'')
       (Seq (Opt (Lit ''s''))
         (Seq (Lit ''://'')
           (Rep (\<lambda>c. \<not> (is_space c \<or> c = CHR 0x22 \<or> c = CHR 0x27 \<or> c = CHR ''>'')) 1 None)))"

definition extract_SUSPICIOUS_KEYWORDS :: "string list" where
  \<comment> \<open>a frozenset; its iteration order is not specified by Python. The order of the
      source text is used here and no theorem depends on it.\<close>
  "extract_SUSPICIOUS_KEYWORDS =
     [''otp'', ''upi'', ''bank'', ''verify'', ''blocked'', ''urgent'', ''suspended'',
      ''kyc'', ''pin'', ''refund'', ''gift card'', ''crypto'', ''bitcoin'', ''btc'',
      ''gold'', ''money'']"

definition normalize_number :: "string \<Rightarrow> string" where
  \<comment> \<open>\<open>re.sub(r"\D", "", num)\<close>\<close>
  "normalize_number num = filter is_digit num"

text \<open>
  A Python dict with string keys is an association list in insertion order;
  \<open>get_list d k\<close> is \<open>d.get(k, [])\<close>. \<open>set(xs)\<close> followed by an iteration is
  \<open>remdups xs\<close>: Python does not specify the order of a set, the order of first
  occurrence is used here, and the theorems speak of membership only.
\<close>

type_synonym intel = "(string \<times> string list) list"

definition get_list :: "intel \<Rightarrow> string \<Rightarrow> string list" where
  "get_list d k = (case map_of d k of None \<Rightarrow> [] | Some v \<Rightarrow> v)"

definition extract_intelligence :: "string \<Rightarrow> intel" where
  "extract_intelligence text =
     (let text_lower = lower text;
          raw_bank_accounts = remdups (findall BANK_ACCOUNT_PATTERN text);
          raw_phone_numbers = remdups (findall PHONE_PATTERN text);
          upi_ids = remdups (findall UPI_PATTERN text);
          urls = remdups (findall URL_PATTERN text);
          normalized_phones = map normalize_number raw_phone_numbers;
          cleaned_bank_accounts =
            filter (\<lambda>acc. normalize_number acc \<notin> set normalized_phones) raw_bank_accounts
      in [(''bankAccounts'', cleaned_bank_accounts),
          (''upiIds'', upi_ids),
          (''phoneNumbers'', raw_phone_numbers),
          (''phishingLinks'', urls),
          (''suspiciousKeywords'',
             filter (\<lambda>kw. contains kw text_lower) extract_SUSPICIOUS_KEYWORDS)])"

section \<open>Session store (session_manager.py)\<close>

text \<open>
  Modelled from the spec: session_manager.py is not among the sources. The fields of a
  session are those the handler reads (\<open>session["confidence"]\<close> and the like) and the
  specification lists; the operations follow the specification's contract of the store.
\<close>

record session =
  sessionId :: string
  total_messages :: int
  confidence :: pyfloat
  agent_active :: bool
  callback_sent :: bool
  intelligence :: intel
  last_active :: rat

text \<open>
  The store is a dict from session id to session, an association list in insertion
  order. The handler keeps the dict that \<open>get_session\<close> returned and reads it after
  each mutation made through the store (the specification: reads are taken after the
  relevant mutation in the same request); \<open>session_of\<close> is that read.
\<close>

type_synonym store = "(string \<times> session) list"

definition new_session :: "string \<Rightarrow> rat \<Rightarrow> session" where
  \<comment> \<open>Modelled from the spec: session_manager.py is not among the sources. A fresh
      session has all counters zero, confidence 0.0, both flags false, five empty
      categories and \<open>last_active\<close> = now.\<close>
  "new_session sid t =
     \<lparr>sessionId = sid, total_messages = 0, confidence = Finite 0,
      agent_active = False,
      callback_sent = False,
      intelligence = [(''bankAccounts'', []), (''upiIds'', []), (''phoneNumbers'', []),
                      (''phishingLinks'', []), (''suspiciousKeywords'', [])],
      last_active = t\<rparr>"

definition get_session :: "store \<Rightarrow> rat \<Rightarrow> string \<Rightarrow> store" where
  \<comment> \<open>Modelled from the spec: SessionManager.get_session is missing. It returns the
      session for the id, creating a fresh one if none exists; the result here is the
      store after the call, in which the id is present.\<close>
  "get_session sm t sid =
     (case map_of sm sid of Some s \<Rightarrow> sm | None \<Rightarrow> sm @ [(sid, new_session sid t)])"

definition session_of :: "store \<Rightarrow> string \<Rightarrow> session" where
  \<comment> \<open>the dict held by the handler; the id is present after \<open>get_session\<close>\<close>
  "session_of sm sid = (case map_of sm sid of Some s \<Rightarrow> s | None \<Rightarrow> new_session sid 0)"

definition modify :: "store \<Rightarrow> string \<Rightarrow> (session \<Rightarrow> session) \<Rightarrow> store" where
  "modify sm sid f = map (\<lambda>(k, s). if k = sid then (k, f s) else (k, s)) sm"

definition increment_message_count :: "store \<Rightarrow> rat \<Rightarrow> string \<Rightarrow> store" where
  \<comment> \<open>Modelled from the spec: SessionManager.increment_message_count is missing:
      \<open>total_messages += 1\<close>; touches \<open>last_active\<close>.\<close>
  "increment_message_count sm t sid =
     modify sm sid (\<lambda>s. s\<lparr>total_messages := total_messages s + 1, last_active := t\<rparr>)"

definition update_confidence :: "store \<Rightarrow> string \<Rightarrow> pyfloat \<Rightarrow> store" where
  \<comment> \<open>Modelled from the spec: SessionManager.update_confidence is missing:
      \<open>confidence += delta\<close>, an addition of Python floats.\<close>
  "update_confidence sm sid delta =
     modify sm sid (\<lambda>s. s\<lparr>confidence := fadd (confidence s) delta\<rparr>)"

definition activate_agent :: "store \<Rightarrow> string \<Rightarrow> store" where
  \<comment> \<open>Modelled from the spec: SessionManager.activate_agent is missing: sets
      \<open>agent_active = true\<close>.\<close>
  "activate_agent sm sid = modify sm sid (\<lambda>s. s\<lparr>agent_active := True\<rparr>)"

definition mark_callback_sent :: "store \<Rightarrow> string \<Rightarrow> store" where
  \<comment> \<open>Modelled from the spec: SessionManager.mark_callback_sent is missing: sets
      \<open>callback_sent = true\<close>.\<close>
  "mark_callback_sent sm sid = modify sm sid (\<lambda>s. s\<lparr>callback_sent := True\<rparr>)"

definition union_into :: "intel \<Rightarrow> string \<Rightarrow> string list \<Rightarrow> intel" where
  "union_into d category vals =
     (if category \<in> fst ` set d
      then map (\<lambda>(k, old). if k = category
                             then (k, old @ filter (\<lambda>v. v \<notin> set old) (remdups vals))
                             else (k, old)) d
      else d @ [(category, remdups vals)])"

definition add_intelligence :: "store \<Rightarrow> string \<Rightarrow> string \<Rightarrow> string list \<Rightarrow> store" where
  \<comment> \<open>Modelled from the spec: SessionManager.add_intelligence is missing: unions the
      values into the named category of the session, without duplicates; a no-op for
      empty values.\<close>
  "add_intelligence sm sid category vals =
     (if vals = [] then sm
      else modify sm sid (\<lambda>s. s\<lparr>intelligence := union_into (intelligence s) category vals\<rparr>))"

definition cleanup_stale :: "store \<Rightarrow> rat \<Rightarrow> rat \<Rightarrow> string \<Rightarrow> string list \<times> store" where
  \<comment> \<open>Modelled from the spec: SessionManager.cleanup_stale is missing: deletes every
      session whose \<open>last_active\<close> is older than \<open>max_idle_seconds\<close>, except the
      excluded id, and returns the evicted ids with the store that is left.\<close>
  "cleanup_stale sm t max_idle_seconds exclude_session_id =
     (let stale = (\<lambda>(k, s). k \<noteq> exclude_session_id \<and> max_idle_seconds < t - last_active s)
      in (map fst (filter stale sm), filter (\<lambda>e. \<not> stale e) sm))"

section \<open>Persona reply generator (agent.py)\<close>

text \<open>
  \<open>_chains\<close> maps a session id to its chain; of a chain only the conversation memory
  matters, the list of (input, output) turns. The language model is a parameter: from
  the memory and the new input it produces a response, or fails (\<open>None\<close>).
\<close>

type_synonym chains = "(string \<times> (string \<times> string) list) list"

type_synonym llm = "(string \<times> string) list \<Rightarrow> string \<Rightarrow> string option"

definition strip :: "string \<Rightarrow> string" where
  \<comment> \<open>\<open>str.strip()\<close>: the whitespace of \<open>str.isspace()\<close> is that of \<open>\s\<close>\<close>
  "strip s = rev (dropWhile is_space (rev (dropWhile is_space s)))"

definition get_or_create_chain :: "chains \<Rightarrow> string \<Rightarrow> chains" where
  "get_or_create_chain ch session_id =
     (case map_of ch session_id of Some c \<Rightarrow> ch | None \<Rightarrow> ch @ [(session_id, [])])"

definition generate_reply :: "llm \<Rightarrow> chains \<Rightarrow> string \<Rightarrow> string \<Rightarrow> chains \<times> string option" where
  "generate_reply predict ch session_id user_message =
     (let ch1 = get_or_create_chain ch session_id;
          memory = (case map_of ch1 session_id of Some c \<Rightarrow> c | None \<Rightarrow> [])
      in case predict memory user_message of
           None \<Rightarrow> (ch1, None)
         | Some response \<Rightarrow>
             (map (\<lambda>(k, c). if k = session_id then (k, c @ [(user_message, response)])
                            else (k, c)) ch1,
              Some (if response \<noteq> [] then strip response else [])))"

definition cleanup_chains_for_sessions :: "chains \<Rightarrow> string list \<Rightarrow> chains" where
  "cleanup_chains_for_sessions ch session_ids = filter (\<lambda>(k, c). k \<notin> set session_ids) ch"

section \<open>HTTP orchestrator (app.py)\<close>

record config =
  API_KEY :: string
  GUVI_CALLBACK_URL :: string
  IS_RENDER :: bool

definition CALLBACK_RETRIES :: nat where
  "CALLBACK_RETRIES = 3"

definition CALLBACK_TIMEOUT :: nat where
  "CALLBACK_TIMEOUT = 10"

record Message =
  sender :: string
  text_of :: string
  timestamp :: string

record IncomingRequest =
  req_sessionId :: string
  message :: Message
  conversationHistory :: "(string \<times> string) list list"

record payload =
  p_sessionId :: string
  scamDetected :: bool
  totalMessagesExchanged :: int
  extractedIntelligence :: intel
  agentNotes :: string

text \<open>
  What a request does to the outside: the POSTs of the callback (URL, JSON body, timeout
  in seconds), the sleeps between them and the log lines.
\<close>

datatype event =
    Post string payload nat
  | Sleep pyfloat
  | LogInfo string
  | LogWarning string nat

text \<open>
  What \<open>requests.post\<close> does in one attempt of the callback: it raises a
  \<open>RequestException\<close> (no connection, timeout and the like), or it returns a
  response with a status code. \<open>r.raise_for_status()\<close> raises an \<open>HTTPError\<close>, which
  is a \<open>RequestException\<close>, for the codes 400 to 599 and for no other code.
\<close>

datatype post_result = Raised | Status nat

definition raise_for_status :: "nat \<Rightarrow> bool" where
  \<comment> \<open>whether \<open>raise_for_status\<close> raises on this status code\<close>
  "raise_for_status code = (400 \<le> code \<and> code < 600)"

definition post_succeeds :: "post_result \<Rightarrow> bool" where
  \<comment> \<open>the body of the \<open>try\<close> gets past \<open>r.raise_for_status()\<close>\<close>
  "post_succeeds r = (case r of Raised \<Rightarrow> False | Status code \<Rightarrow> \<not> raise_for_status code)"

text \<open>
  What the outside does during one request: the clock, the classification pipeline, the
  language model, and the answer to each attempt of the callback (numbered from 0).
\<close>

record world =
  now :: rat
  classifier :: "string \<Rightarrow> (string \<times> pyfloat) option"
  predict :: llm
  post_answer :: "nat \<Rightarrow> post_result"

definition post_ok :: "world \<Rightarrow> nat \<Rightarrow> bool" where
  \<comment> \<open>the attempt counts as sent\<close>
  "post_ok w attempt = post_succeeds (post_answer w attempt)"

record state =
  sessions :: store
  agent_chains :: chains

datatype error = HTTPException nat string | PropagatedException

record response =
  status :: string
  reply :: string

fun merge_items :: "store \<Rightarrow> string \<Rightarrow> intel \<Rightarrow> store" where
  "merge_items sm session_id [] = sm"
| "merge_items sm session_id ((key, vals) # rest) =
     (if vals = [] then merge_items sm session_id rest
      else merge_items (add_intelligence sm session_id key vals) session_id rest)"

definition merge_intelligence :: "store \<Rightarrow> string \<Rightarrow> intel \<Rightarrow> store" where
  "merge_intelligence sm session_id intel = merge_items sm session_id intel"

definition should_finalize :: "session \<Rightarrow> bool" where
  "should_finalize session =
     (let intel = intelligence session;
          has_core_intel =
            (0 < length (get_list intel ''upiIds'') \<or>
             0 < length (get_list intel ''phishingLinks'') \<or>
             0 < length (get_list intel ''phoneNumbers'') \<or>
             0 < length (get_list intel ''bankAccounts''));
          enough_turns = (8 \<le> total_messages session)
      in has_core_intel \<and> enough_turns)"

fun attempts ::
  "string \<Rightarrow> (nat \<Rightarrow> post_result) \<Rightarrow> payload \<Rightarrow> nat list \<Rightarrow> bool \<times> event list" where
  \<comment> \<open>the \<open>for attempt in range(CALLBACK_RETRIES)\<close> loop; the flag tells whether it
      left through the \<open>return\<close> in the \<open>try\<close>\<close>
  "attempts url answer p [] = (False, [])"
| "attempts url answer p (attempt # rest) =
     (if post_succeeds (answer attempt) then (True, [Post url p CALLBACK_TIMEOUT])
      else let (sent, evs) = attempts url answer p rest
           in (sent,
               Post url p CALLBACK_TIMEOUT #
               (if attempt < CALLBACK_RETRIES - 1
                then [Sleep (fmul (Finite 1) (Finite (of_nat (attempt + 1))))] else [])
               @ evs))"

definition send_guvi_callback ::
  "config \<Rightarrow> (nat \<Rightarrow> post_result) \<Rightarrow> store \<Rightarrow> string \<Rightarrow> store \<times> event list" where
  "send_guvi_callback cfg answer sm session_id =
     (let session = session_of sm session_id;
          p = \<lparr>p_sessionId = sessionId session, scamDetected = True,
               totalMessagesExchanged = total_messages session,
               extractedIntelligence = intelligence session,
               agentNotes = ''Scammer used urgency and verification tactics to solicit sensitive details.''\<rparr>;
          (sent, evs) = attempts (GUVI_CALLBACK_URL cfg) answer p [0..<CALLBACK_RETRIES]
      in if sent
         then (mark_callback_sent sm (sessionId session), evs @ [LogInfo (sessionId session)])
         else (sm, evs @ [LogWarning (sessionId session) CALLBACK_RETRIES]))"

definition join_space :: "string list \<Rightarrow> string" where
  \<comment> \<open>\<open>" ".join(xs)\<close>\<close>
  "join_space xs = (case xs of [] \<Rightarrow> [] | x # rest \<Rightarrow> x @ concat (map (\<lambda>y. '' '' @ y) rest))"

definition history_text_of :: "(string \<times> string) list list \<Rightarrow> string" where
  \<comment> \<open>\<open>" ".join(m.get("text", "") for m in body.conversationHistory)\<close>\<close>
  "history_text_of hist =
     join_space (map (\<lambda>m. case map_of m ''text'' of None \<Rightarrow> [] | Some t \<Rightarrow> t) hist)"

text \<open>
  \<open>handle_message\<close> returns the state it leaves, what it did to the outside and its
  result: the response, or the exception that leaves it. An exception of the
  classifier or of the language model is not caught; the mutations made before it stay.
\<close>

definition handle_message ::
  "config \<Rightarrow> world \<Rightarrow> string option \<Rightarrow> IncomingRequest \<Rightarrow> state
     \<Rightarrow> state \<times> event list \<times> (error + response)" where
  "handle_message cfg w x_api_key body st =
     (if x_api_key \<noteq> Some (API_KEY cfg)
      then (st, [], Inl (HTTPException 401 ''Invalid API key''))
      else
        let session_id = req_sessionId body;
            message_text = text_of (message body);
            sender = sender (message body)
        in if sender \<noteq> ''scammer''
           then (st, [], Inr \<lparr>status = ''ignored'', reply = []\<rparr>)
           else
             let (removed_ids, sm1) = cleanup_stale (sessions st) (now w) 86400 session_id;
                 ch1 = cleanup_chains_for_sessions (agent_chains st) removed_ids;
                 sm2 = get_session sm1 (now w) session_id;
                 sm3 = increment_message_count sm2 (now w) session_id
             in case detect_scam (IS_RENDER cfg) (classifier w) message_text of
                  None \<Rightarrow> (\<lparr>sessions = sm3, agent_chains = ch1\<rparr>, [], Inl PropagatedException)
                | Some (is_scam, scam_confidence) \<Rightarrow>
                    let sm4 = (if is_scam
                               then update_confidence sm3 session_id
                                      (fmul scam_confidence (Finite (double_of (4 / 10))))
                               else sm3);
                        sm5 = (if fle (Finite (double_of (6 / 10)))
                                      (confidence (session_of sm4 session_id))
                                  \<and> \<not> agent_active (session_of sm4 session_id)
                               then activate_agent sm4 session_id else sm4);
                        (ch2, generated) =
                          (if agent_active (session_of sm5 session_id)
                           then generate_reply (predict w) ch1 session_id message_text
                           else (ch1, Some ''I am not very sure what this means. Can you please explain?''))
                    in case generated of
                         None \<Rightarrow> (\<lparr>sessions = sm5, agent_chains = ch2\<rparr>, [], Inl PropagatedException)
                       | Some reply_text \<Rightarrow>
                           let history_text = history_text_of (conversationHistory body);
                               cumulative_text =
                                 history_text @ '' '' @ message_text @ '' '' @ reply_text;
                               intel = extract_intelligence cumulative_text;
                               sm6 = merge_intelligence sm5 session_id intel;
                               (sm7, evs) =
                                 (if agent_active (session_of sm6 session_id)
                                     \<and> \<not> callback_sent (session_of sm6 session_id)
                                     \<and> should_finalize (session_of sm6 session_id)
                                  then send_guvi_callback cfg (post_answer w) sm6 session_id
                                  else (sm6, []))
                           in (\<lparr>sessions = sm7, agent_chains = ch2\<rparr>, evs,
                               Inr \<lparr>status = ''success'', reply = reply_text\<rparr>))"

section \<open>Stages of \<open>handle_message\<close>\<close>

text \<open>
  The handler's steps 3 to 5, 7 to 8 and 12, named so that each can be reasoned about
  alone; \<open>handle_message_stages\<close> below shows that \<open>handle_message\<close> is their
  composition.
\<close>

definition load_session :: "world \<Rightarrow> string \<Rightarrow> state \<Rightarrow> store \<times> chains" where
  "load_session w session_id st =
     (let (removed_ids, sm1) = cleanup_stale (sessions st) (now w) 86400 session_id;
          ch1 = cleanup_chains_for_sessions (agent_chains st) removed_ids;
          sm2 = get_session sm1 (now w) session_id;
          sm3 = increment_message_count sm2 (now w) session_id
      in (sm3, ch1))"

definition score_session :: "string \<Rightarrow> bool \<times> pyfloat \<Rightarrow> store \<Rightarrow> store" where
  "score_session session_id d sm3 =
     (let sm4 = (if fst d
                 then update_confidence sm3 session_id
                        (fmul (snd d) (Finite (double_of (4 / 10))))
                 else sm3)
      in if fle (Finite (double_of (6 / 10))) (confidence (session_of sm4 session_id))
            \<and> \<not> agent_active (session_of sm4 session_id)
         then activate_agent sm4 session_id else sm4)"

definition finalize :: "config \<Rightarrow> world \<Rightarrow> string \<Rightarrow> store \<Rightarrow> store \<times> event list" where
  "finalize cfg w session_id sm6 =
     (if agent_active (session_of sm6 session_id)
         \<and> \<not> callback_sent (session_of sm6 session_id)
         \<and> should_finalize (session_of sm6 session_id)
      then send_guvi_callback cfg (post_answer w) sm6 session_id
      else (sm6, []))"

definition loaded :: "rat \<Rightarrow> string \<Rightarrow> store \<Rightarrow> session" where
  \<comment> \<open>the session of the request after steps 3 to 5\<close>
  "loaded t session_id sm =
     (let s = (case map_of sm session_id of Some s \<Rightarrow> s | None \<Rightarrow> new_session session_id t)
      in s\<lparr>total_messages := total_messages s + 1, last_active := t\<rparr>)"

definition scored :: "bool \<times> pyfloat \<Rightarrow> session \<Rightarrow> session" where
  \<comment> \<open>what steps 7 and 8 do to the session of the request\<close>
  "scored d s =
     (let s4 = (if fst d
                then s\<lparr>confidence := fadd (confidence s)
                                        (fmul (snd d) (Finite (double_of (4 / 10))))\<rparr>
                else s)
      in if fle (Finite (double_of (6 / 10))) (confidence s4) \<and> \<not> agent_active s4
         then s4\<lparr>agent_active := True\<rparr> else s4)"

definition callback_trace :: "string \<Rightarrow> (nat \<Rightarrow> bool) \<Rightarrow> payload \<Rightarrow> event list" where
  \<comment> \<open>the POSTs and sleeps of one call of the callback, as the specification
      describes them: up to three attempts with a timeout of 10 seconds each, a wait of
      1 s before the second and of 2 s before the third, none after a success\<close>
  "callback_trace url ok p =
     (if ok 0 then [Post url p 10]
      else if ok 1 then [Post url p 10, Sleep (Finite 1), Post url p 10]
      else [Post url p 10, Sleep (Finite 1), Post url p 10, Sleep (Finite 2), Post url p 10])"

definition report :: "session \<Rightarrow> payload" where
  \<comment> \<open>the JSON body built by \<open>send_guvi_callback\<close>\<close>
  "report session =
     \<lparr>p_sessionId = sessionId session, scamDetected = True,
      totalMessagesExchanged = total_messages session,
      extractedIntelligence = intelligence session,
      agentNotes = ''Scammer used urgency and verification tactics to solicit sensitive details.''\<rparr>"

definition callback_due :: "session \<Rightarrow> bool" where
  \<comment> \<open>the condition of step 12 under which the callback is called\<close>
  "callback_due s = (agent_active s \<and> \<not> callback_sent s \<and> should_finalize s)"

definition wf_store :: "store \<Rightarrow> bool" where
  \<comment> \<open>every id has one session, stored under its own id\<close>
  "wf_store sm = (distinct (map fst sm) \<and> list_all (\<lambda>(k, s). sessionId s = k) sm)"

text \<open>A run of the service: the requests are handled one after the other.\<close>

type_synonym outcome = "state \<times> event list \<times> (error + response)"

fun run :: "config \<Rightarrow> (world \<times> string option \<times> IncomingRequest) list \<Rightarrow> state \<Rightarrow> outcome list" where
  "run cfg [] st = []"
| "run cfg ((w, x_api_key, body) # rest) st =
     (let out = handle_message cfg w x_api_key body st in out # run cfg rest (fst out))"

definition invoked :: "string \<Rightarrow> event list \<Rightarrow> bool" where
  \<comment> \<open>the callback was called for the session: a POST of its report was made\<close>
  "invoked k evs = list_ex (\<lambda>e. case e of Post url p n \<Rightarrow> p_sessionId p = k | _ \<Rightarrow> False) evs"

definition delivered :: "string \<Rightarrow> event list \<Rightarrow> bool" where
  \<comment> \<open>a POST of the session's report succeeded: the loop logged it and returned\<close>
  "delivered k evs = (LogInfo k \<in> set evs)"

section \<open>Concrete scenarios\<close>

definition demo_cfg :: config where
  "demo_cfg = \<lparr>API_KEY = ''secret'',
               GUVI_CALLBACK_URL = ''https://hackathon.guvi.in/api/updateHoneyPotFinalResult'',
               IS_RENDER = True\<rparr>"

definition demo_world_at :: "rat \<Rightarrow> (nat \<Rightarrow> post_result) \<Rightarrow> world" where
  "demo_world_at t answer = \<lparr>now = t, classifier = (\<lambda>t. None),
                             predict = (\<lambda>memory input. Some ''ok''),
                             post_answer = answer\<rparr>"

definition demo_world :: "(nat \<Rightarrow> bool) \<Rightarrow> world" where
  \<comment> \<open>at time 0; the endpoint answers 200 where \<open>ok\<close> holds and is unreachable
      otherwise\<close>
  "demo_world ok = demo_world_at 0 (\<lambda>n. if ok n then Status 200 else Raised)"

definition demo_errors :: "nat \<Rightarrow> post_result" where
  \<comment> \<open>no connection, then 500, then 404\<close>
  "demo_errors n = (if n = 0 then Raised else if n = 1 then Status 500 else Status 404)"

definition demo_body :: "string \<Rightarrow> string \<Rightarrow> string \<Rightarrow> IncomingRequest" where
  "demo_body sid who t =
     \<lparr>req_sessionId = sid, message = \<lparr>sender = who, text_of = t, timestamp = ''0''\<rparr>,
      conversationHistory = []\<rparr>"

definition empty_state :: state where
  "empty_state = \<lparr>sessions = [], agent_chains = []\<rparr>"

definition demo_session7 :: session where
  \<comment> \<open>a session after seven turns: active, one phone number found, not reported\<close>
  "demo_session7 =
     \<lparr>sessionId = ''s1'', total_messages = 7,
      confidence = Finite (6485183463413515 / 9007199254740992), agent_active = True,
      callback_sent = False,
      intelligence = [(''bankAccounts'', []), (''upiIds'', []),
                      (''phoneNumbers'', [''9876543210'']), (''phishingLinks'', []),
                      (''suspiciousKeywords'', [''otp''])],
      last_active = 0\<rparr>"

definition demo_state7 :: state where
  "demo_state7 = \<lparr>sessions = [(''s1'', demo_session7)], agent_chains = []\<rparr>"

text \<open>
  A run in which the session s1 is reported, evicted and created again: its eighth
  request at time 0, a request for another session more than a day later, and eight
  more requests for s1.
\<close>

definition demo_later :: world where
  \<comment> \<open>at time 100000, more than 86400 seconds after time 0; the endpoint answers 200\<close>
  "demo_later = demo_world_at 100000 (\<lambda>n. Status 200)"

definition demo_session_s2 :: session where
  "demo_session_s2 = (new_session ''s2'' 100000)\<lparr>total_messages := 1\<rparr>"

definition demo_again :: "int \<Rightarrow> nat \<Rightarrow> state" where
  \<comment> \<open>s1 created again at time 100000 and active: after \<open>n\<close> messages, of which the
      last \<open>m\<close> were "hi"\<close>
  "demo_again n m =
     \<lparr>sessions = [(''s2'', demo_session_s2),
                  (''s1'', demo_session7\<lparr>total_messages := n, last_active := 100000\<rparr>)],
      agent_chains = [(''s1'', (''otp'', ''ok'') # replicate m (''hi'', ''ok''))]\<rparr>"

definition demo_requests :: "(world \<times> string option \<times> IncomingRequest) list" where
  "demo_requests =
     [(demo_world (\<lambda>n. n = 2), Some ''secret'', demo_body ''s1'' ''scammer'' ''hi''),
      (demo_later, Some ''secret'', demo_body ''s2'' ''scammer'' ''hi''),
      (demo_later, Some ''secret'', demo_body ''s1'' ''scammer'' ''otp 9876543210''),
      (demo_later, Some ''secret'', demo_body ''s1'' ''scammer'' ''otp''),
      (demo_later, Some ''secret'', demo_body ''s1'' ''scammer'' ''hi''),
      (demo_later, Some ''secret'', demo_body ''s1'' ''scammer'' ''hi''),
      (demo_later, Some ''secret'', demo_body ''s1'' ''scammer'' ''hi''),
      (demo_later, Some ''secret'', demo_body ''s1'' ''scammer'' ''hi''),
      (demo_later, Some ''secret'', demo_body ''s1'' ''scammer'' ''hi''),
      (demo_later, Some ''secret'', demo_body ''s1'' ''scammer'' ''hi'')]"

section \<open>Facts about strings\<close>

lemma contains_iff_sublist: "contains kw t \<longleftrightarrow> sublist kw t"
  by (induction t) (auto simp: sublist_Cons_right)

lemma hits_card:
  "hits t = card {kw \<in> set detector_SUSPICIOUS_KEYWORDS. sublist kw t}"
proof -
  have d: "distinct detector_SUSPICIOUS_KEYWORDS"
    by (simp add: detector_SUSPICIOUS_KEYWORDS_def)
  have "hits t = card ({kw. contains kw t} \<inter> set detector_SUSPICIOUS_KEYWORDS)"
    unfolding hits_def using d by (rule distinct_length_filter)
  also have "{kw. contains kw t} \<inter> set detector_SUSPICIOUS_KEYWORDS
             = {kw \<in> set detector_SUSPICIOUS_KEYWORDS. sublist kw t}"
    by (auto simp: contains_iff_sublist)
  finally show ?thesis .
qed

lemma any_strong_iff:
  "any_strong t \<longleftrightarrow>
     (\<exists>sk \<in> {''otp'', ''upi pin'', ''pin'', ''one time password''}. sublist sk t)"
  by (simp add: any_strong_def STRONG_KEYWORDS_def contains_iff_sublist)

lemma detector_keywords_set:
  "set detector_SUSPICIOUS_KEYWORDS =
     {''urgent'', ''verify'', ''account'', ''blocked'', ''suspended'', ''kyc'',
      ''refund'', ''debit'', ''credit'', ''bank'', ''upi'', ''money''}"
  by (simp add: detector_SUSPICIOUS_KEYWORDS_def)

text \<open>the float literals of the sources, as Python prints them with \<open>as_integer_ratio\<close>\<close>

lemma float_literals:
  "double_of (9 / 10) = 8106479329266893 / 9007199254740992"
  "double_of (4 / 10) = 3602879701896397 / 9007199254740992"
  "double_of (6 / 10) = 5404319552844595 / 9007199254740992"
  "double_of (7 / 10) = 3152519739159347 / 4503599627370496"
  "double_of (85 / 100) = 7656119366529843 / 9007199254740992"
  "double_of (36 / 100) = 3242591731706757 / 9007199254740992"
  "double_of (72 / 100) = 3242591731706757 / 4503599627370496"
  by code_simp+

lemma lit_06_lt_085: "double_of (6 / 10) < double_of (85 / 100)"
  by code_simp

section \<open>Facts about the extractor\<close>

lemma extract_keywords_set:
  "set extract_SUSPICIOUS_KEYWORDS =
     {''otp'', ''upi'', ''bank'', ''verify'', ''blocked'', ''urgent'', ''suspended'',
      ''kyc'', ''pin'', ''refund'', ''gift card'', ''crypto'', ''bitcoin'', ''btc'',
      ''gold'', ''money''}"
  by (simp add: extract_SUSPICIOUS_KEYWORDS_def)

lemma extract_keywords_distinct: "distinct extract_SUSPICIOUS_KEYWORDS"
  by (simp add: extract_SUSPICIOUS_KEYWORDS_def)

lemma suspiciousKeywords_eq:
  "get_list (extract_intelligence t) ''suspiciousKeywords''
     = filter (\<lambda>kw. contains kw (lower t)) extract_SUSPICIOUS_KEYWORDS"
  by (simp add: extract_intelligence_def get_list_def Let_def)

lemma bankAccounts_set:
  "set (get_list (extract_intelligence t) ''bankAccounts'')
     = {acc \<in> set (findall BANK_ACCOUNT_PATTERN t).
          normalize_number acc \<notin> normalize_number ` set (findall PHONE_PATTERN t)}"
  by (auto simp: extract_intelligence_def get_list_def Let_def)

lemma phoneNumbers_set:
  "set (get_list (extract_intelligence t) ''phoneNumbers'') = set (findall PHONE_PATTERN t)"
  by (simp add: extract_intelligence_def get_list_def Let_def)

section \<open>Facts about the matcher and the phone pattern\<close>

lemma rmatch_Lit_iff: "n \<in> set (rmatch (Lit l) prev s) \<longleftrightarrow> prefix l s \<and> n = length l"
  by auto

lemma rmatch_Cls_iff:
  "n \<in> set (rmatch (Cls P) prev s) \<longleftrightarrow> (\<exists>c cs. s = c # cs \<and> P c) \<and> n = 1"
  by (cases s) auto

lemma rmatch_Rep_iff:
  "n \<in> set (rmatch (Rep P m (Some M)) prev s)
     \<longleftrightarrow> m \<le> n \<and> n \<le> M \<and> n \<le> length (takeWhile P s)"
  by (auto simp: Let_def)

lemma rmatch_Opt_iff: "n \<in> set (rmatch (Opt r) prev s) \<longleftrightarrow> n \<in> set (rmatch r prev s) \<or> n = 0"
  by auto

lemma rmatch_Alt_iff:
  "n \<in> set (rmatch (Alt r1 r2) prev s)
     \<longleftrightarrow> n \<in> set (rmatch r1 prev s) \<or> n \<in> set (rmatch r2 prev s)"
  by auto

lemma rmatch_Seq_iff:
  "n \<in> set (rmatch (Seq r1 r2) prev s)
     \<longleftrightarrow> (\<exists>n1 n2. n1 \<in> set (rmatch r1 prev s)
                   \<and> n2 \<in> set (rmatch r2 (prev_after prev s n1) (drop n1 s)) \<and> n = n1 + n2)"
  by auto

lemma rmatch_WordB_iff:
  "n \<in> set (rmatch WordB prev s) \<longleftrightarrow> word_before prev \<noteq> word_after s \<and> n = 0"
  by auto

lemmas rmatch_iffs = rmatch_Lit_iff rmatch_Cls_iff rmatch_Rep_iff rmatch_Opt_iff rmatch_Alt_iff
  rmatch_Seq_iff rmatch_WordB_iff

lemma takeWhile_length_ge:
  "k \<le> length (takeWhile P s) \<Longrightarrow> i < k \<Longrightarrow> i < length s \<and> P (s ! i)"
  by (metis length_takeWhile_le less_le_trans nth_mem set_takeWhileD takeWhile_nth)

lemma is_digit_word: "is_digit c \<Longrightarrow> is_word c"
  by (auto simp: is_digit_def is_word_def Let_def)

text \<open>the shape of a match of the phone pattern\<close>

lemma phone_prefix_shape:
  assumes "n1 \<in> set (rmatch (Opt (Alt (Seq (Lit ''+91'') (Opt (Cls (\<lambda>c. c = CHR ''-'' \<or> is_space c))))
                                     (Lit ''0''))) prev s)"
  shows "\<exists>p. s = p @ drop n1 s \<and> length p = n1
           \<and> (p = [] \<or> p = ''0'' \<or> p = ''+91''
               \<or> (\<exists>sep. (sep = CHR ''-'' \<or> is_space sep) \<and> p = ''+91'' @ [sep]))"
proof -
  from assms have "n1 = 0 \<or> n1 \<in> set (rmatch (Lit ''0'') prev s)
      \<or> n1 \<in> set (rmatch (Seq (Lit ''+91'') (Opt (Cls (\<lambda>c. c = CHR ''-'' \<or> is_space c)))) prev s)"
    unfolding rmatch_Opt_iff rmatch_Alt_iff by blast
  then consider (none) "n1 = 0" | (zero) "n1 \<in> set (rmatch (Lit ''0'') prev s)"
    | (code) "n1 \<in> set (rmatch (Seq (Lit ''+91'') (Opt (Cls (\<lambda>c. c = CHR ''-'' \<or> is_space c)))) prev s)"
    by blast
  then show ?thesis
  proof cases
    case none
    then show ?thesis by simp
  next
    case zero
    then obtain r where "s = ''0'' @ r" "n1 = 1"
      unfolding rmatch_Lit_iff by (auto elim: prefixE)
    then show ?thesis by auto
  next
    case code
    then obtain m where pre: "prefix ''+91'' s"
      and m: "m \<in> set (rmatch (Opt (Cls (\<lambda>c. c = CHR ''-'' \<or> is_space c)))
                          (prev_after prev s (length ''+91'')) (drop (length ''+91'') s))"
      and n1: "n1 = length ''+91'' + m"
      unfolding rmatch_Seq_iff rmatch_Lit_iff by blast
    obtain r where r: "s = ''+91'' @ r" using pre by (auto elim: prefixE)
    have d3: "drop (length ''+91'') s = r" unfolding r by simp
    from m have "m = 0 \<or> (\<exists>c cs. r = c # cs \<and> (c = CHR ''-'' \<or> is_space c) \<and> m = 1)"
      unfolding rmatch_Opt_iff rmatch_Cls_iff d3 by blast
    then show ?thesis
    proof
      assume "m = 0"
      then have "s = ''+91'' @ drop n1 s" "length ''+91'' = n1" using r n1 by simp_all
      then show ?thesis by blast
    next
      assume "\<exists>c cs. r = c # cs \<and> (c = CHR ''-'' \<or> is_space c) \<and> m = 1"
      then obtain c cs where c: "r = c # cs" "c = CHR ''-'' \<or> is_space c" "m = 1" by blast
      have "s = (''+91'' @ [c]) @ drop n1 s" "length (''+91'' @ [c]) = n1"
        using r c n1 by simp_all
      then show ?thesis using c(2) by blast
    qed
  qed
qed


lemma phone_digits_shape:
  assumes "n2 \<in> set (rmatch (Seq (Cls (\<lambda>c. c \<in> set ''6789''))
                                (Seq (Rep is_digit 9 (Some 9)) WordB)) prev s)"
  shows "n2 = 10 \<and> 10 \<le> length s \<and> (\<forall>i<10. is_word (s ! i))"
proof -
  from assms obtain a b where a: "a \<in> set (rmatch (Cls (\<lambda>c. c \<in> set ''6789'')) prev s)"
    and b: "b \<in> set (rmatch (Seq (Rep is_digit 9 (Some 9)) WordB) (prev_after prev s a) (drop a s))"
    and n2: "n2 = a + b"
    unfolding rmatch_Seq_iff [of n2 "Cls _"] by blast
  from a obtain c cs where s: "s = c # cs" and c: "c \<in> set ''6789''" and a1: "a = 1"
    unfolding rmatch_Cls_iff by blast
  have dr: "drop a s = cs" using s a1 by simp
  from b obtain m e where m: "m \<in> set (rmatch (Rep is_digit 9 (Some 9)) (prev_after prev s a) cs)"
    and e: "e \<in> set (rmatch WordB (prev_after (prev_after prev s a) cs m) (drop m cs))"
    and bb: "b = m + e"
    unfolding rmatch_Seq_iff dr by blast
  have m9: "m = 9" and run: "9 \<le> length (takeWhile is_digit cs)"
    using m unfolding rmatch_Rep_iff by simp_all
  have e0: "e = 0" using e unfolding rmatch_WordB_iff by simp
  have n10: "n2 = 10" using n2 a1 bb m9 e0 by simp
  have d: "i < 9 \<Longrightarrow> i < length cs \<and> is_digit (cs ! i)" for i
    using takeWhile_length_ge [OF run] by blast
  have len: "10 \<le> length s" using d [of 8] s by simp
  have cw: "is_word c" using c by (auto simp: is_word_def)
  have "is_word (s ! i)" if "i < 10" for i
  proof (cases i)
    case 0
    then show ?thesis using s cw by simp
  next
    case (Suc j)
    then have "j < 9" using that by simp
    then have "is_word (cs ! j)" using d [of j] is_digit_word by blast
    then show ?thesis using s Suc by simp
  qed
  then show ?thesis using n10 len by blast
qed

lemma phone_match_shape:
  assumes "n \<in> set (rmatch PHONE_PATTERN prev s)"
  shows "\<exists>p. prefix p s \<and> n = length p + 10 \<and> n \<le> length s
           \<and> (p = [] \<or> p = ''0'' \<or> p = ''+91''
               \<or> (\<exists>sep. (sep = CHR ''-'' \<or> is_space sep) \<and> p = ''+91'' @ [sep]))
           \<and> (\<forall>i<10. is_word (s ! (length p + i)))"
proof -
  from assms obtain n1 n2 where
    n1: "n1 \<in> set (rmatch (Opt (Alt (Seq (Lit ''+91'') (Opt (Cls (\<lambda>c. c = CHR ''-'' \<or> is_space c))))
                                     (Lit ''0''))) prev s)"
    and n2: "n2 \<in> set (rmatch (Seq (Cls (\<lambda>c. c \<in> set ''6789''))
                                (Seq (Rep is_digit 9 (Some 9)) WordB))
                           (prev_after prev s n1) (drop n1 s))"
    and n: "n = n1 + n2"
    unfolding PHONE_PATTERN_def rmatch_Seq_iff [of n "Opt _"] by blast
  obtain p where p: "s = p @ drop n1 s" "length p = n1"
    "p = [] \<or> p = ''0'' \<or> p = ''+91''
       \<or> (\<exists>sep. (sep = CHR ''-'' \<or> is_space sep) \<and> p = ''+91'' @ [sep])"
    using phone_prefix_shape [OF n1] by blast
  note d = phone_digits_shape [OF n2]
  have pre: "prefix p s" using p(1) by (metis prefixI)
  have "length s = n1 + length (drop n1 s)" using p(1,2) by (metis length_append)
  then have len: "n \<le> length s" using d n by simp
  have w: "is_word (s ! (length p + i))" if "i < 10" for i
  proof -
    have "s ! (length p + i) = drop n1 s ! i"
      using p(1) by (metis nth_append_length_plus)
    then show ?thesis using d that by simp
  qed
  have n10: "n = length p + 10" using p(2) n d by simp
  have "\<forall>i<10. is_word (s ! (length p + i))" using w by blast
  with pre n10 len p(3) show ?thesis by (intro exI [of _ p] conjI)
qed

lemma is_digit_simps:
  "is_digit CHR ''0''" "is_digit CHR ''1''" "is_digit CHR ''2''" "is_digit CHR ''3''"
  "is_digit CHR ''4''" "is_digit CHR ''5''" "is_digit CHR ''6''" "is_digit CHR ''7''"
  "is_digit CHR ''8''" "is_digit CHR ''9''"
  by (simp_all add: is_digit_def)

lemma phone_match_at_run:
  assumes "\<not> word_after post"
  shows "rmatch PHONE_PATTERN prev (''9876543210'' @ post) = [10]"
proof -
  let ?s2 = "CHR ''8'' # CHR ''7'' # CHR ''6'' # CHR ''5'' # CHR ''4'' # CHR ''3'' # CHR ''2''
             # CHR ''1'' # CHR ''0'' # post"
  have w: "word_before (Some CHR ''0'')" by (simp add: word_before_def is_word_def)
  have t: "length (takeWhile is_digit ?s2) = 9 + length (takeWhile is_digit post)"
    by (simp add: is_digit_simps)
  have rep: "rmatch (Rep is_digit 9 (Some 9)) pv ?s2 = [9]" for pv
    unfolding rmatch.simps t Let_def by (simp add: upt_rec)
  have tail: "rmatch (Seq (Rep is_digit 9 (Some 9)) WordB) pv ?s2 = [9]" for pv
    unfolding rmatch.simps(6) rep by (simp add: prev_after_def w assms)
  define R1 where "R1 = Opt (Alt (Seq (Lit ''+91'') (Opt (Cls (\<lambda>c. c = CHR ''-'' \<or> is_space c))))
                                 (Lit ''0''))"
  define R2 where "R2 = Seq (Cls (\<lambda>c. c \<in> set ''6789'')) (Seq (Rep is_digit 9 (Some 9)) WordB)"
  have P: "PHONE_PATTERN = Seq R1 R2" by (simp add: PHONE_PATTERN_def R1_def R2_def)
  have r2: "rmatch R2 pv (CHR ''9'' # ?s2) = [10]" for pv
    unfolding R2_def rmatch.simps(6) [of "Cls _"] by (simp add: tail del: rmatch.simps(6))
  have opt: "rmatch R1 prev (CHR ''9'' # ?s2) = [0]"
    unfolding R1_def by simp
  have "rmatch PHONE_PATTERN prev (CHR ''9'' # ?s2) = [10]"
    unfolding P rmatch.simps(6) opt by (simp add: r2)
  then show ?thesis by simp
qed

lemma split1: "pre @ q = [a] \<Longrightarrow> pre \<noteq> [] \<Longrightarrow> pre = [a] \<and> q = []"
  by (cases pre) auto

lemma split3:
  "pre @ q = [a, b, c] \<Longrightarrow> pre \<noteq> [] \<Longrightarrow>
     (pre = [a] \<and> q = [b, c]) \<or> (pre = [a, b] \<and> q = [c]) \<or> (pre = [a, b, c] \<and> q = [])"
  by (auto simp: append_eq_Cons_conv)

lemma split4:
  "pre @ q = [a, b, c, d] \<Longrightarrow> pre \<noteq> [] \<Longrightarrow>
     (pre = [a] \<and> q = [b, c, d]) \<or> (pre = [a, b] \<and> q = [c, d])
     \<or> (pre = [a, b, c] \<and> q = [d]) \<or> (pre = [a, b, c, d] \<and> q = [])"
  by (auto simp: append_eq_Cons_conv)

lemma word_9: "is_word CHR ''9''" and word_1: "is_word CHR ''1''" and word_0: "is_word CHR ''0''"
  by (simp_all add: is_word_def)

lemma phone_match_stays:
  assumes n: "n \<in> set (rmatch PHONE_PATTERN prev (pre @ ''9876543210'' @ post))"
    and ne: "pre \<noteq> []" and lw: "\<not> is_word (last pre)"
    and H: "\<not> (\<exists>sep. (sep = CHR ''-'' \<or> is_space sep) \<and> suffix (''+91'' @ [sep]) pre)"
  shows "n \<le> length pre"
proof (rule ccontr)
  assume "\<not> n \<le> length pre"
  then have gt: "length pre < n" by simp
  define s where "s = pre @ ''9876543210'' @ post"
  obtain p where pp: "prefix p s" and np: "n = length p + 10"
    and cases: "p = [] \<or> p = ''0'' \<or> p = ''+91''
               \<or> (\<exists>sep. (sep = CHR ''-'' \<or> is_space sep) \<and> p = ''+91'' @ [sep])"
    and w: "\<forall>i<10. is_word (s ! (length p + i))"
    using phone_match_shape [OF n] unfolding s_def by blast
  have lastpre: "s ! (length pre - 1) = last pre"
    unfolding s_def using ne by (simp add: nth_append last_conv_nth)
  have ple: "length pre \<le> length p"
  proof (rule ccontr)
    assume a: "\<not> length pre \<le> length p"
    define i where "i = length pre - 1 - length p"
    have "i < 10" and "length p + i = length pre - 1"
      using a gt np by (simp_all add: i_def)
    then have "is_word (s ! (length pre - 1))" using w by metis
    then show False using lastpre lw by simp
  qed
  have "prefix pre s" unfolding s_def by simp
  then have "prefix pre p" using pp ple by (rule prefix_length_prefix)
  then obtain q where q: "pre @ q = p" by (auto elim: prefixE)
  have pq: "prefix q (''9876543210'' @ post)" using pp unfolding q [symmetric] s_def by simp
  from cases consider (none) "p = []" | (zero) "p = ''0''" | (code) "p = ''+91''"
    | (sep) sep where "sep = CHR ''-'' \<or> is_space sep" "p = ''+91'' @ [sep]" by blast
  then show False
  proof cases
    case none
    then show False using q ne by simp
  next
    case zero
    then have "pre = ''0''" using split1 [OF _ ne] q by blast
    then show False using lw word_0 by simp
  next
    case p: code
    from split3 [OF q [unfolded p] ne]
    consider (a) "q = ''91''" | (b) "pre = ''+9''" | (c) "pre = ''+91''" by blast
    then show False
    proof cases
      case a
      then show False using pq by simp
    next
      case b
      then show False using lw word_9 by simp
    next
      case c
      then show False using lw word_1 by simp
    qed
  next
    case (sep sep)
    note p = sep(2) and sep = sep(1)
    have q': "pre @ q = [CHR ''+'', CHR ''9'', CHR ''1'', sep]" using q p by simp
    from split4 [OF q' ne]
    consider (a) "q = [CHR ''9'', CHR ''1'', sep]" | (b) "pre = ''+9''" | (c) "pre = ''+91''"
      | (d) "pre = [CHR ''+'', CHR ''9'', CHR ''1'', sep]" by blast
    then show False
    proof cases
      case a
      then show False using pq by simp
    next
      case b
      then show False using lw word_9 by simp
    next
      case c
      then show False using lw word_1 by simp
    next
      case d
      then have "suffix (''+91'' @ [sep]) pre" by simp
      then show False using H sep by blast
    qed
  qed
qed

lemma scan_finds_run:
  assumes wa: "\<not> word_after post"
    and lw: "pre \<noteq> [] \<longrightarrow> \<not> is_word (last pre)"
    and H: "\<not> (\<exists>sep. (sep = CHR ''-'' \<or> is_space sep) \<and> suffix (''+91'' @ [sep]) pre)"
    and k: "k \<le> length pre"
  shows "''9876543210'' \<in> set (scan PHONE_PATTERN k prev (pre @ ''9876543210'' @ post))"
  using lw H k
proof (induction pre arbitrary: k prev)
  case Nil
  have e: "''9876543210'' @ post = CHR ''9'' # (''876543210'' @ post)" by simp
  have m: "rmatch PHONE_PATTERN prev (CHR ''9'' # (''876543210'' @ post)) = [10]"
    using phone_match_at_run [OF wa, of prev] unfolding e .
  have "scan PHONE_PATTERN 0 prev (CHR ''9'' # (''876543210'' @ post))
          = take 10 (CHR ''9'' # (''876543210'' @ post))
            # scan PHONE_PATTERN (10 - 1) (Some CHR ''9'') (''876543210'' @ post)"
    unfolding scan.simps(3) m by simp
  moreover have "take 10 (CHR ''9'' # (''876543210'' @ post)) = ''9876543210''" by simp
  ultimately show ?case using Nil.prems(3) unfolding append_Nil e by simp
next
  case (Cons c cs)
  have lw': "cs \<noteq> [] \<longrightarrow> \<not> is_word (last cs)" using Cons.prems(1) by auto
  have H': "\<not> (\<exists>sep. (sep = CHR ''-'' \<or> is_space sep) \<and> suffix (''+91'' @ [sep]) cs)"
  proof
    assume "\<exists>sep. (sep = CHR ''-'' \<or> is_space sep) \<and> suffix (''+91'' @ [sep]) cs"
    then obtain sep where s: "sep = CHR ''-'' \<or> is_space sep" "suffix (''+91'' @ [sep]) cs"
      by blast
    from s(2) have "suffix (''+91'' @ [sep]) (c # cs)" by (rule suffix_ConsI)
    then show False using Cons.prems(2) s(1) by blast
  qed
  note IH = Cons.IH [OF lw' H']
  have app: "(c # cs) @ ''9876543210'' @ post = c # (cs @ ''9876543210'' @ post)" by simp
  show ?case
  proof (cases k)
    case (Suc k')
    then have "k' \<le> length cs" using Cons.prems(3) by simp
    then have "''9876543210'' \<in> set (scan PHONE_PATTERN k' (Some c) (cs @ ''9876543210'' @ post))"
      by (rule IH)
    then show ?thesis unfolding app Suc scan.simps(2) .
  next
    case 0
    show ?thesis
    proof (cases "rmatch PHONE_PATTERN prev (c # (cs @ ''9876543210'' @ post))")
      case Nil
      then have "scan PHONE_PATTERN 0 prev (c # (cs @ ''9876543210'' @ post))
                   = scan PHONE_PATTERN 0 (Some c) (cs @ ''9876543210'' @ post)"
        by simp
      then show ?thesis using IH [of 0 "Some c"] unfolding app 0 by simp
    next
      case (Cons n ns)
      then have "n \<in> set (rmatch PHONE_PATTERN prev ((c # cs) @ ''9876543210'' @ post))"
        unfolding app by simp
      then have "n \<le> length (c # cs)"
        using Cons.prems(1,2) by (intro phone_match_stays) simp_all
      then have le: "n - 1 \<le> length cs" by simp
      have "scan PHONE_PATTERN 0 prev (c # (cs @ ''9876543210'' @ post))
              = take n (c # (cs @ ''9876543210'' @ post))
                # scan PHONE_PATTERN (n - 1) (Some c) (cs @ ''9876543210'' @ post)"
        using Cons by simp
      then show ?thesis using IH [OF le, of "Some c"] unfolding app 0 by simp
    qed
  qed
qed


text \<open>
  Where the run 9876543210 has no word character directly before it and none directly
  after it, and is not directly preceded by "+91" followed by a hyphen or a whitespace
  character, \<open>extract_intelligence\<close> returns 9876543210 among the phone numbers and not
  among the bank accounts, whatever else the text contains (an @ included).
\<close>

lemma bare_phone_number_wins:
  assumes "t = pre @ ''9876543210'' @ post"
    and "pre \<noteq> [] \<longrightarrow> \<not> is_word (last pre)"
    and "post \<noteq> [] \<longrightarrow> \<not> is_word (hd post)"
    and "\<not> (\<exists>sep. (sep = CHR ''-'' \<or> is_space sep) \<and> suffix (''+91'' @ [sep]) pre)"
  shows "''9876543210'' \<in> set (get_list (extract_intelligence t) ''phoneNumbers'')
         \<and> ''9876543210'' \<notin> set (get_list (extract_intelligence t) ''bankAccounts'')"
proof -
  have wa: "\<not> word_after post" using assms(3) by (cases post) (simp_all add: word_after_def)
  have "''9876543210'' \<in> set (findall PHONE_PATTERN t)"
    unfolding findall_def assms(1)
    using scan_finds_run [OF wa assms(2) assms(4), of 0 None] by simp
  then show ?thesis
    unfolding phoneNumbers_set bankAccounts_set by blast
qed

lemma bare_phone_number_wins_example:
  "''9876543210'' \<in> set (get_list (extract_intelligence ''call 9876543210 now'') ''phoneNumbers'')
   \<and> ''9876543210'' \<notin> set (get_list (extract_intelligence ''call 9876543210 now'') ''bankAccounts'')
   \<and> ''9876543210'' \<in> set (get_list (extract_intelligence ''9876543210'') ''phoneNumbers'')
   \<and> ''9876543210'' \<notin> set (get_list (extract_intelligence ''9876543210'') ''bankAccounts'')"
proof -
  have t1: "''call 9876543210 now'' = ''call '' @ ''9876543210'' @ '' now''" by simp
  have a1: "''call '' \<noteq> [] \<longrightarrow> \<not> is_word (last ''call '')" by (simp add: is_word_def)
  have b1: "'' now'' \<noteq> [] \<longrightarrow> \<not> is_word (hd '' now'')" by (simp add: is_word_def)
  have h1: "\<not> (\<exists>sep. (sep = CHR ''-'' \<or> is_space sep) \<and> suffix (''+91'' @ [sep]) ''call '')"
    by (simp add: suffix_to_prefix)
  have t2: "''9876543210'' = [] @ ''9876543210'' @ []" by simp
  have a2: "([] :: string) \<noteq> [] \<longrightarrow> \<not> is_word (last [])" by simp
  have b2: "([] :: string) \<noteq> [] \<longrightarrow> \<not> is_word (hd [])" by simp
  have h2: "\<not> (\<exists>sep. (sep = CHR ''-'' \<or> is_space sep) \<and> suffix (''+91'' @ [sep]) [])"
    by simp
  show ?thesis
    using bare_phone_number_wins [OF t1 a1 b1 h1] bare_phone_number_wins [OF t2 a2 b2 h2] by blast
qed

section \<open>Facts about the session store\<close>

lemma map_of_modify:
  "map_of (modify sm sid f) k = (if k = sid then map_option f (map_of sm sid) else map_of sm k)"
  by (induction sm) (auto simp: modify_def)

lemma keys_modify: "map fst (modify sm sid f) = map fst sm"
  by (induction sm) (auto simp: modify_def)

lemma modify_modify: "modify (modify sm sid f) sid g = modify sm sid (g \<circ> f)"
  by (induction sm) (auto simp: modify_def)

lemma modify_id: "modify sm sid (\<lambda>s. s) = sm"
  by (induction sm) (auto simp: modify_def)

lemma wf_modify:
  assumes "wf_store sm" and "\<And>s. sessionId (f s) = sessionId s"
  shows "wf_store (modify sm sid f)"
proof -
  have "distinct (map fst (modify sm sid f))"
    using assms(1) by (simp add: keys_modify wf_store_def)
  moreover have "list_all (\<lambda>(k, s). sessionId s = k) (modify sm sid f)"
    using assms by (auto simp: wf_store_def list_all_iff modify_def split: if_splits)
  ultimately show ?thesis by (simp add: wf_store_def)
qed

lemma session_of_modify:
  "session_of (modify sm sid f) k =
     (if k = sid \<and> map_of sm sid \<noteq> None then f (session_of sm sid) else session_of sm k)"
  by (auto simp: session_of_def map_of_modify split: option.splits)

lemma map_of_get_session:
  "map_of (get_session sm t sid) k =
     (if k = sid then Some (case map_of sm sid of Some s \<Rightarrow> s | None \<Rightarrow> new_session sid t)
      else map_of sm k)"
  by (auto simp: get_session_def map_of_append map_add_def split: option.splits)

lemma wf_get_session: "wf_store sm \<Longrightarrow> wf_store (get_session sm t sid)"
  by (auto simp: get_session_def wf_store_def new_session_def map_of_eq_None_iff
           split: option.splits)

lemma map_of_filter_keep:
  assumes "\<And>v. P (k, v)"
  shows "map_of (filter P xs) k = map_of xs k"
  using assms by (induction xs) auto

lemma map_of_filter_distinct:
  assumes "distinct (map fst xs)"
  shows "map_of (filter P xs) k = None \<or> map_of (filter P xs) k = map_of xs k"
  using assms
proof (induction xs)
  case Nil
  then show ?case by simp
next
  case (Cons x xs)
  obtain a b where x: "x = (a, b)" by (cases x)
  show ?case
  proof (cases "a = k")
    case True
    then have "map_of xs k = None"
      using Cons.prems x by (simp add: map_of_eq_None_iff)
    then have "map_of (filter P xs) k = None"
      by (auto simp: map_of_eq_None_iff)
    then show ?thesis using True x by simp
  next
    case False
    then show ?thesis using Cons x by simp
  qed
qed

lemma wf_filter: "wf_store sm \<Longrightarrow> wf_store (filter P sm)"
  by (auto simp: wf_store_def distinct_map_filter list_all_iff)

lemma cleanup_stale_excluded:
  "map_of (snd (cleanup_stale sm t m sid)) sid = map_of sm sid"
  unfolding cleanup_stale_def Let_def snd_conv
  by (rule map_of_filter_keep) simp

lemma cleanup_stale_other:
  assumes "wf_store sm"
  shows "map_of (snd (cleanup_stale sm t m sid)) k = None
         \<or> map_of (snd (cleanup_stale sm t m sid)) k = map_of sm k"
proof -
  have "distinct (map fst sm)" using assms by (simp add: wf_store_def)
  then show ?thesis
    unfolding cleanup_stale_def Let_def snd_conv by (rule map_of_filter_distinct)
qed

lemma wf_cleanup_stale: "wf_store sm \<Longrightarrow> wf_store (snd (cleanup_stale sm t m sid))"
  unfolding cleanup_stale_def Let_def snd_conv by (rule wf_filter)

text \<open>merging changes the intelligence of the session only\<close>

lemma merge_items_modify:
  "\<exists>F. merge_items sm sid items = modify sm sid F \<and> (\<forall>s. \<exists>i. F s = s\<lparr>intelligence := i\<rparr>)"
proof (induction items arbitrary: sm)
  case Nil
  have "merge_items sm sid [] = modify sm sid (\<lambda>s. s)" by (simp add: modify_id)
  moreover have "\<forall>s::session. \<exists>i. s = s\<lparr>intelligence := i\<rparr>"
    by (rule allI, rule_tac x="intelligence s" in exI) simp
  ultimately show ?case by blast
next
  case (Cons kv items)
  obtain key vals where kv: "kv = (key, vals)" by (cases kv)
  show ?case
  proof (cases "vals = []")
    case True
    then show ?thesis using Cons.IH [of sm] kv by simp
  next
    case False
    let ?g = "\<lambda>s. s\<lparr>intelligence := union_into (intelligence s) key vals\<rparr>"
    obtain F where F: "merge_items (modify sm sid ?g) sid items = modify (modify sm sid ?g) sid F"
      and Fi: "\<forall>s. \<exists>i. F s = s\<lparr>intelligence := i\<rparr>"
      using Cons.IH [of "modify sm sid ?g"] by blast
    have "merge_items sm sid (kv # items) = modify sm sid (F \<circ> ?g)"
      using False kv F by (simp add: add_intelligence_def modify_modify)
    moreover have "\<forall>s. \<exists>i. (F \<circ> ?g) s = s\<lparr>intelligence := i\<rparr>"
    proof
      fix s
      obtain i where "F (?g s) = (?g s)\<lparr>intelligence := i\<rparr>" using Fi by blast
      then have "(F \<circ> ?g) s = s\<lparr>intelligence := i\<rparr>" by simp
      then show "\<exists>i. (F \<circ> ?g) s = s\<lparr>intelligence := i\<rparr>" ..
    qed
    ultimately show ?thesis by blast
  qed
qed

section \<open>Facts about the stages of the handler\<close>

lemma double_of_1: "double_of 1 = 1" by code_simp
lemma double_of_2: "double_of 2 = 2" by code_simp

lemma to_float_1: "to_float 1 = Finite 1"
  by code_simp

lemma to_float_2: "to_float 2 = Finite 2"
  by code_simp

lemma demo_world_simps:
  "now (demo_world ok) = 0"
  "classifier (demo_world ok) = (\<lambda>t. None)"
  "post_ok (demo_world ok) n = ok n"
  by (simp_all add: demo_world_def demo_world_at_def post_ok_def post_succeeds_def
      raise_for_status_def)

lemma post_ok_eta: "(\<lambda>a. post_succeeds (post_answer w a)) = post_ok w"
  by (simp add: fun_eq_iff post_ok_def)

lemma attempts_range:
  "attempts url answer p [0..<CALLBACK_RETRIES] =
     (let ok = (\<lambda>a. post_succeeds (answer a))
      in (ok 0 \<or> ok 1 \<or> ok 2, callback_trace url ok p))"
proof -
  have r: "[0..<CALLBACK_RETRIES] = [0, 1, 2]"
    by (simp add: CALLBACK_RETRIES_def upt_rec)
  have s1: "fmul (Finite 1) (Finite (of_nat (0 + 1))) = Finite 1" by (simp add: to_float_1)
  have s2: "fmul (Finite 1) (Finite (of_nat (1 + 1))) = Finite 2" by (simp add: to_float_2)
  show ?thesis
    unfolding r callback_trace_def Let_def attempts.simps s1 s2
    by (simp add: CALLBACK_RETRIES_def CALLBACK_TIMEOUT_def)
qed

lemma send_guvi_callback_eq:
  "send_guvi_callback cfg answer sm sid =
     (let ok = (\<lambda>a. post_succeeds (answer a)); s = session_of sm sid;
          tr = callback_trace (GUVI_CALLBACK_URL cfg) ok (report s)
      in if ok 0 \<or> ok 1 \<or> ok 2
         then (mark_callback_sent sm (sessionId s), tr @ [LogInfo (sessionId s)])
         else (sm, tr @ [LogWarning (sessionId s) 3]))"
  unfolding send_guvi_callback_def Let_def report_def[symmetric] attempts_range
  by (simp add: CALLBACK_RETRIES_def)

lemma load_session_sid:
  "map_of (fst (load_session w sid st)) sid = Some (loaded (now w) sid (sessions st))"
  unfolding load_session_def Let_def case_prod_beta fst_conv increment_message_count_def
  by (simp add: map_of_modify map_of_get_session cleanup_stale_excluded loaded_def Let_def)

lemma load_session_other:
  assumes "wf_store (sessions st)" and "k \<noteq> sid"
  shows "map_of (fst (load_session w sid st)) k = None
         \<or> map_of (fst (load_session w sid st)) k = map_of (sessions st) k"
  using cleanup_stale_other [OF assms(1), of "now w" 86400 sid k] assms(2)
  unfolding load_session_def Let_def case_prod_beta fst_conv increment_message_count_def
  by (simp add: map_of_modify map_of_get_session)

lemma wf_load_session:
  assumes "wf_store (sessions st)"
  shows "wf_store (fst (load_session w sid st))"
  unfolding load_session_def Let_def case_prod_beta fst_conv increment_message_count_def
  by (intro wf_modify wf_get_session wf_cleanup_stale assms) simp

lemma score_session_sid:
  assumes "map_of sm sid = Some s"
  shows "map_of (score_session sid d sm) sid = Some (scored d s)"
  using assms
  unfolding score_session_def scored_def update_confidence_def activate_agent_def Let_def
  by (simp add: map_of_modify session_of_def)

lemma score_session_other:
  assumes "k \<noteq> sid"
  shows "map_of (score_session sid d sm) k = map_of sm k"
  using assms
  unfolding score_session_def update_confidence_def activate_agent_def Let_def
  by (simp add: map_of_modify)

lemma wf_score_session:
  assumes "wf_store sm"
  shows "wf_store (score_session sid d sm)"
  unfolding score_session_def update_confidence_def activate_agent_def Let_def
  by (auto intro!: wf_modify assms)

lemma merge_intelligence_sid:
  assumes "map_of sm sid = Some s"
  shows "\<exists>i. map_of (merge_intelligence sm sid x) sid = Some (s\<lparr>intelligence := i\<rparr>)"
proof -
  obtain F where F: "merge_items sm sid x = modify sm sid F"
    and Fi: "\<forall>s. \<exists>i. F s = s\<lparr>intelligence := i\<rparr>"
    using merge_items_modify by blast
  obtain i where "F s = s\<lparr>intelligence := i\<rparr>" using Fi by blast
  then have "map_of (merge_intelligence sm sid x) sid = Some (s\<lparr>intelligence := i\<rparr>)"
    using assms F by (simp add: merge_intelligence_def map_of_modify)
  then show ?thesis ..
qed

lemma merge_intelligence_other:
  assumes "k \<noteq> sid"
  shows "map_of (merge_intelligence sm sid x) k = map_of sm k"
proof -
  obtain F where F: "merge_items sm sid x = modify sm sid F"
    using merge_items_modify by blast
  then show ?thesis using assms by (simp add: merge_intelligence_def map_of_modify)
qed

lemma wf_merge_intelligence:
  assumes "wf_store sm"
  shows "wf_store (merge_intelligence sm sid x)"
proof -
  obtain F where F: "merge_items sm sid x = modify sm sid F"
    and Fi: "\<forall>s. \<exists>i. F s = s\<lparr>intelligence := i\<rparr>"
    using merge_items_modify by blast
  have "sessionId (F s) = sessionId s" for s
  proof -
    obtain i where "F s = s\<lparr>intelligence := i\<rparr>" using Fi by blast
    then show ?thesis by simp
  qed
  then show ?thesis using F assms by (simp add: merge_intelligence_def wf_modify)
qed

lemma wf_sessionId:
  assumes "wf_store sm" and "map_of sm k = Some s"
  shows "sessionId s = k"
  using assms map_of_SomeD [OF assms(2)] by (auto simp: wf_store_def list_all_iff)

text \<open>the finalize step on a session stored under its own id\<close>

lemma finalize_eq:
  assumes "map_of sm sid = Some s" and "sessionId s = sid"
  shows "finalize cfg w sid sm =
     (if agent_active s \<and> \<not> callback_sent s \<and> should_finalize s
      then (if post_ok w 0 \<or> post_ok w 1 \<or> post_ok w 2
            then (modify sm sid (\<lambda>s. s\<lparr>callback_sent := True\<rparr>),
                  callback_trace (GUVI_CALLBACK_URL cfg) (post_ok w) (report s) @ [LogInfo sid])
            else (sm, callback_trace (GUVI_CALLBACK_URL cfg) (post_ok w) (report s)
                        @ [LogWarning sid 3]))
      else (sm, []))"
  using assms
  unfolding finalize_def send_guvi_callback_eq Let_def mark_callback_sent_def
  by (simp add: session_of_def post_ok_def [symmetric])

lemma handle_message_stages:
  assumes "x_api_key = Some (API_KEY cfg)" and "sender (message body) = ''scammer''"
  shows "handle_message cfg w x_api_key body st =
     (let sid = req_sessionId body; (sm3, ch1) = load_session w sid st
      in case detect_scam (IS_RENDER cfg) (classifier w) (text_of (message body)) of
           None \<Rightarrow> (\<lparr>sessions = sm3, agent_chains = ch1\<rparr>, [], Inl PropagatedException)
         | Some d \<Rightarrow>
             let sm5 = score_session sid d sm3;
                 (ch2, generated) =
                   (if agent_active (session_of sm5 sid)
                    then generate_reply (predict w) ch1 sid (text_of (message body))
                    else (ch1, Some ''I am not very sure what this means. Can you please explain?''))
             in case generated of
                  None \<Rightarrow> (\<lparr>sessions = sm5, agent_chains = ch2\<rparr>, [], Inl PropagatedException)
                | Some reply_text \<Rightarrow>
                    let sm6 = merge_intelligence sm5 sid
                                (extract_intelligence
                                   (history_text_of (conversationHistory body) @ '' '' @
                                    text_of (message body) @ '' '' @ reply_text));
                        (sm7, evs) = finalize cfg w sid sm6
                    in (\<lparr>sessions = sm7, agent_chains = ch2\<rparr>, evs,
                        Inr \<lparr>status = ''success'', reply = reply_text\<rparr>))"
  using assms
  unfolding handle_message_def load_session_def score_session_def finalize_def Let_def
    case_prod_beta
  by (simp cong: option.case_cong if_cong)

lemma handle_message_cases [consumes 4, case_names detect_fails reply_fails replied]:
  assumes auth: "x_api_key = Some (API_KEY cfg)"
    and scammer: "sender (message body) = ''scammer''"
    and wf: "wf_store (sessions st)"
    and run: "handle_message cfg w x_api_key body st = (st', evs, res)"
  obtains
    (detect_fails)
      "detect_scam (IS_RENDER cfg) (classifier w) (text_of (message body)) = None"
      "map_of (sessions st') (req_sessionId body)
         = Some (loaded (now w) (req_sessionId body) (sessions st))"
      "evs = []" "res = Inl PropagatedException"
  | (reply_fails) d where
      "detect_scam (IS_RENDER cfg) (classifier w) (text_of (message body)) = Some d"
      "map_of (sessions st') (req_sessionId body)
         = Some (scored d (loaded (now w) (req_sessionId body) (sessions st)))"
      "agent_active (scored d (loaded (now w) (req_sessionId body) (sessions st)))"
      "evs = []" "res = Inl PropagatedException"
  | (replied) d i r s6 where
      "detect_scam (IS_RENDER cfg) (classifier w) (text_of (message body)) = Some d"
      "s6 = (scored d (loaded (now w) (req_sessionId body) (sessions st)))\<lparr>intelligence := i\<rparr>"
      "res = Inr \<lparr>status = ''success'', reply = r\<rparr>"
      "\<not> callback_due s6 \<Longrightarrow> map_of (sessions st') (req_sessionId body) = Some s6 \<and> evs = []"
      "callback_due s6 \<Longrightarrow> post_ok w 0 \<or> post_ok w 1 \<or> post_ok w 2 \<Longrightarrow>
         map_of (sessions st') (req_sessionId body) = Some (s6\<lparr>callback_sent := True\<rparr>)
         \<and> evs = callback_trace (GUVI_CALLBACK_URL cfg) (post_ok w) (report s6)
                   @ [LogInfo (req_sessionId body)]"
      "callback_due s6 \<Longrightarrow> \<not> (post_ok w 0 \<or> post_ok w 1 \<or> post_ok w 2) \<Longrightarrow>
         map_of (sessions st') (req_sessionId body) = Some s6
         \<and> evs = callback_trace (GUVI_CALLBACK_URL cfg) (post_ok w) (report s6)
                   @ [LogWarning (req_sessionId body) 3]"
proof -
  define sid where "sid = req_sessionId body"
  define sm3 where "sm3 = fst (load_session w sid st)"
  define ch1 where "ch1 = snd (load_session w sid st)"
  define s3 where "s3 = loaded (now w) sid (sessions st)"
  have ld: "load_session w sid st = (sm3, ch1)" by (simp add: sm3_def ch1_def)
  have m3: "map_of sm3 sid = Some s3" unfolding sm3_def s3_def by (rule load_session_sid)
  have wf3: "wf_store sm3" unfolding sm3_def using wf by (rule wf_load_session)
  note st = handle_message_stages [OF auth scammer, of w st, unfolded Let_def, folded sid_def, unfolded ld prod.case]
  show thesis
  proof (cases "detect_scam (IS_RENDER cfg) (classifier w) (text_of (message body))")
    case None
    then have "st' = \<lparr>sessions = sm3, agent_chains = ch1\<rparr>" "evs = []"
      "res = Inl PropagatedException"
      using run st by (simp_all add: Let_def)
    then show thesis
      using detect_fails None m3 by (simp add: sid_def s3_def)
  next
    case (Some d)
    define sm5 where "sm5 = score_session sid d sm3"
    define s5 where "s5 = scored d s3"
    have m5: "map_of sm5 sid = Some s5"
      unfolding sm5_def s5_def using m3 by (rule score_session_sid)
    have wf5: "wf_store sm5" unfolding sm5_def using wf3 by (rule wf_score_session)
    have so5: "session_of sm5 sid = s5" using m5 by (simp add: session_of_def)
    define gen where "gen = (if agent_active s5
                    then generate_reply (predict w) ch1 sid (text_of (message body))
                    else (ch1, Some ''I am not very sure what this means. Can you please explain?''))"
    have st5: "(st', evs, res) =
       (case snd gen of
          None \<Rightarrow> (\<lparr>sessions = sm5, agent_chains = fst gen\<rparr>, [], Inl PropagatedException)
        | Some reply_text \<Rightarrow>
            let sm6 = merge_intelligence sm5 sid
                        (extract_intelligence
                           (history_text_of (conversationHistory body) @ '' '' @
                            text_of (message body) @ '' '' @ reply_text));
                (sm7, evs) = finalize cfg w sid sm6
            in (\<lparr>sessions = sm7, agent_chains = fst gen\<rparr>, evs,
                Inr \<lparr>status = ''success'', reply = reply_text\<rparr>))"
      using run st Some
      by (simp add: Let_def sm5_def[symmetric] so5 gen_def[symmetric] case_prod_beta
               cong: option.case_cong)
    show thesis
    proof (cases "snd gen")
      case None
      then have act: "agent_active s5"
        by (auto simp: gen_def split: if_splits)
      have "st' = \<lparr>sessions = sm5, agent_chains = fst gen\<rparr>" "evs = []"
        "res = Inl PropagatedException"
        using st5 None by simp_all
      then show thesis
        using reply_fails [of d] Some m5 act by (simp add: sid_def s5_def s3_def)
    next
      case (Some r)
      define sm6 where "sm6 = merge_intelligence sm5 sid
                        (extract_intelligence
                           (history_text_of (conversationHistory body) @ '' '' @
                            text_of (message body) @ '' '' @ r))"
      obtain i where m6: "map_of sm6 sid = Some (s5\<lparr>intelligence := i\<rparr>)"
        unfolding sm6_def using merge_intelligence_sid [OF m5] by blast
      define s6 where "s6 = s5\<lparr>intelligence := i\<rparr>"
      have wf6: "wf_store sm6" unfolding sm6_def using wf5 by (rule wf_merge_intelligence)
      have id6: "sessionId s6 = sid" using wf_sessionId [OF wf6 m6] by (simp add: s6_def)
      have fin: "st' = \<lparr>sessions = fst (finalize cfg w sid sm6), agent_chains = fst gen\<rparr>"
        "evs = snd (finalize cfg w sid sm6)" "res = Inr \<lparr>status = ''success'', reply = r\<rparr>"
        using st5 Some by (simp_all add: Let_def sm6_def case_prod_beta)
      note fe = finalize_eq [OF m6 [folded s6_def] id6, of cfg w, folded callback_due_def]
      have a: "\<not> callback_due s6 \<Longrightarrow> map_of (sessions st') sid = Some s6 \<and> evs = []"
        using fin fe m6 by (simp add: s6_def)
      have b: "callback_due s6 \<Longrightarrow> post_ok w 0 \<or> post_ok w 1 \<or> post_ok w 2 \<Longrightarrow>
         map_of (sessions st') sid = Some (s6\<lparr>callback_sent := True\<rparr>)
         \<and> evs = callback_trace (GUVI_CALLBACK_URL cfg) (post_ok w) (report s6) @ [LogInfo sid]"
        using fin fe m6 by (simp add: s6_def map_of_modify)
      have c: "callback_due s6 \<Longrightarrow> \<not> (post_ok w 0 \<or> post_ok w 1 \<or> post_ok w 2) \<Longrightarrow>
         map_of (sessions st') sid = Some s6
         \<and> evs = callback_trace (GUVI_CALLBACK_URL cfg) (post_ok w) (report s6)
                   @ [LogWarning sid 3]"
        using fin fe m6 by (simp add: s6_def)
      show thesis
        using replied [of d s6 i r] \<open>detect_scam (IS_RENDER cfg) (classifier w) (text_of (message body)) = Some d\<close>
          fin(3) a b c
        by (simp add: sid_def s6_def s5_def s3_def)
    qed
  qed
qed

lemma finalize_frame:
  assumes "wf_store sm" and "map_of sm sid = Some s"
  shows "wf_store (fst (finalize cfg w sid sm))"
    and "k \<noteq> sid \<Longrightarrow> map_of (fst (finalize cfg w sid sm)) k = map_of sm k"
proof -
  have id: "sessionId s = sid" using assms by (rule wf_sessionId)
  note fe = finalize_eq [OF assms(2) id, of cfg w]
  show "wf_store (fst (finalize cfg w sid sm))"
    unfolding fe using assms(1) by (simp add: wf_modify)
  show "k \<noteq> sid \<Longrightarrow> map_of (fst (finalize cfg w sid sm)) k = map_of sm k"
    unfolding fe by (simp add: map_of_modify)
qed

lemma handle_message_sessions:
  assumes auth: "x_api_key = Some (API_KEY cfg)"
    and scammer: "sender (message body) = ''scammer''"
    and run: "handle_message cfg w x_api_key body st = (st', evs, res)"
  shows "\<exists>d x. sessions st' = fst (load_session w (req_sessionId body) st)
           \<or> sessions st' = score_session (req_sessionId body) d
                               (fst (load_session w (req_sessionId body) st))
           \<or> sessions st' = fst (finalize cfg w (req_sessionId body)
                                    (merge_intelligence
                                       (score_session (req_sessionId body) d
                                          (fst (load_session w (req_sessionId body) st)))
                                       (req_sessionId body) x))"
proof (cases "detect_scam (IS_RENDER cfg) (classifier w) (text_of (message body))")
  case None
  then have "sessions st' = fst (load_session w (req_sessionId body) st)"
    using run unfolding handle_message_stages [OF auth scammer] Let_def case_prod_beta
    by auto
  then show ?thesis by blast
next
  case (Some d)
  let ?sm5 = "score_session (req_sessionId body) d (fst (load_session w (req_sessionId body) st))"
  have "sessions st' = ?sm5
        \<or> (\<exists>x. sessions st' = fst (finalize cfg w (req_sessionId body)
                                       (merge_intelligence ?sm5 (req_sessionId body) x)))"
    using run Some unfolding handle_message_stages [OF auth scammer] Let_def case_prod_beta
    by (auto split: option.splits)
  then show ?thesis by blast
qed

lemma handle_message_frame:
  assumes wf: "wf_store (sessions st)"
    and run: "handle_message cfg w x_api_key body st = (st', evs, res)"
  shows "wf_store (sessions st')"
    and "k \<noteq> req_sessionId body \<Longrightarrow>
           map_of (sessions st') k = None \<or> map_of (sessions st') k = map_of (sessions st) k"
proof -
  define sid where "sid = req_sessionId body"
  have "wf_store (sessions st') \<and>
        (k \<noteq> sid \<longrightarrow> map_of (sessions st') k = None \<or> map_of (sessions st') k = map_of (sessions st) k)"
  proof (cases "x_api_key = Some (API_KEY cfg) \<and> sender (message body) = ''scammer''")
    case False
    then have "st' = st" using run by (auto simp: handle_message_def Let_def split: if_splits)
    then show ?thesis using wf by simp
  next
    case True
    define sm3 where "sm3 = fst (load_session w sid st)"
    have w3: "wf_store sm3" unfolding sm3_def using wf by (rule wf_load_session)
    have o3: "k \<noteq> sid \<Longrightarrow> map_of sm3 k = None \<or> map_of sm3 k = map_of (sessions st) k"
      unfolding sm3_def using wf by (rule load_session_other)
    obtain s3 where m3: "map_of sm3 sid = Some s3"
      unfolding sm3_def using load_session_sid by blast
    obtain d x where shape: "sessions st' = sm3 \<or> sessions st' = score_session sid d sm3
        \<or> sessions st' = fst (finalize cfg w sid (merge_intelligence (score_session sid d sm3) sid x))"
      using handle_message_sessions [OF True [THEN conjunct1] True [THEN conjunct2] run]
      unfolding sid_def sm3_def by blast
    define sm5 where "sm5 = score_session sid d sm3"
    have w5: "wf_store sm5" unfolding sm5_def using w3 by (rule wf_score_session)
    have o5: "k \<noteq> sid \<Longrightarrow> map_of sm5 k = map_of sm3 k"
      unfolding sm5_def by (rule score_session_other)
    have m5: "map_of sm5 sid = Some (scored d s3)"
      unfolding sm5_def using m3 by (rule score_session_sid)
    define sm6 where "sm6 = merge_intelligence sm5 sid x"
    have w6: "wf_store sm6" unfolding sm6_def using w5 by (rule wf_merge_intelligence)
    have o6: "k \<noteq> sid \<Longrightarrow> map_of sm6 k = map_of sm5 k"
      unfolding sm6_def by (rule merge_intelligence_other)
    obtain s6 where m6: "map_of sm6 sid = Some s6"
      unfolding sm6_def using merge_intelligence_sid [OF m5] by blast
    note f = finalize_frame [OF w6 m6]
    from shape show ?thesis
      unfolding sm5_def[symmetric] sm6_def[symmetric]
      using w3 o3 w5 o5 w6 o6 f by auto
  qed
  then show "wf_store (sessions st')"
    and "k \<noteq> req_sessionId body \<Longrightarrow>
           map_of (sessions st') k = None \<or> map_of (sessions st') k = map_of (sessions st) k"
    by (simp_all add: sid_def)
qed

section \<open>Facts about requests and runs\<close>

lemma loaded_fields:
  "callback_sent (loaded t sid sm) = callback_sent (session_of sm sid)"
  "agent_active (loaded t sid sm) = agent_active (session_of sm sid)"
  "confidence (loaded t sid sm) = confidence (session_of sm sid)"
  "intelligence (loaded t sid sm) = intelligence (session_of sm sid)"
  "total_messages (loaded t sid sm) = total_messages (session_of sm sid) + 1"
  by (auto simp: loaded_def session_of_def new_session_def Let_def split: option.splits)

lemma loaded_sessionId:
  assumes "wf_store sm"
  shows "sessionId (loaded t sid sm) = sid"
proof (cases "map_of sm sid")
  case None
  then show ?thesis by (simp add: loaded_def new_session_def)
next
  case (Some s)
  then show ?thesis using wf_sessionId [OF assms Some] by (simp add: loaded_def)
qed

lemma scored_fields:
  "callback_sent (scored d s) = callback_sent s"
  "sessionId (scored d s) = sessionId s"
  "intelligence (scored d s) = intelligence s"
  "total_messages (scored d s) = total_messages s"
  "confidence (scored d s) =
     (if fst d then fadd (confidence s) (fmul (snd d) (Finite (double_of (4 / 10))))
      else confidence s)"
  "agent_active (scored d s) \<longleftrightarrow>
     agent_active s \<or> fle (Finite (double_of (6 / 10))) (confidence (scored d s))"
  by (auto simp: scored_def Let_def)

lemma callback_trace_posts:
  "list_ex (\<lambda>e. case e of Post url p n \<Rightarrow> p_sessionId p = k | _ \<Rightarrow> False)
     (callback_trace url ok p) \<longleftrightarrow> p_sessionId p = k"
  by (simp add: callback_trace_def)

lemma invoked_simps:
  "invoked k [] = False"
  "invoked k (callback_trace url ok p @ [LogInfo x]) = (p_sessionId p = k)"
  "invoked k (callback_trace url ok p @ [LogWarning x n]) = (p_sessionId p = k)"
  by (simp_all add: invoked_def callback_trace_posts)

lemma delivered_simps:
  "delivered k [] = False"
  "delivered k (callback_trace url ok p @ [LogInfo x]) = (x = k)"
  "delivered k (callback_trace url ok p @ [LogWarning x n]) = False"
  by (auto simp: delivered_def callback_trace_def)

lemma report_sessionId: "p_sessionId (report s) = sessionId s"
  by (simp add: report_def)

text \<open>what one request does to the session it names and to the outside\<close>

lemma step_invoked:
  assumes wf: "wf_store (sessions st)"
    and run: "handle_message cfg w x_api_key body st = (st', evs, res)"
    and inv: "invoked k evs"
  shows "x_api_key = Some (API_KEY cfg) \<and> sender (message body) = ''scammer''
         \<and> k = req_sessionId body
         \<and> \<not> callback_sent (session_of (sessions st) k)
         \<and> (\<exists>r. res = Inr \<lparr>status = ''success'', reply = r\<rparr>)
         \<and> (\<exists>s6. callback_due s6
               \<and> evs = callback_trace (GUVI_CALLBACK_URL cfg) (post_ok w) (report s6)
                         @ [if post_ok w 0 \<or> post_ok w 1 \<or> post_ok w 2
                            then LogInfo k else LogWarning k 3]
               \<and> map_of (sessions st') k
                   = Some (if post_ok w 0 \<or> post_ok w 1 \<or> post_ok w 2
                           then s6\<lparr>callback_sent := True\<rparr> else s6))"
proof -
  have auth: "x_api_key = Some (API_KEY cfg)" and scammer: "sender (message body) = ''scammer''"
    using run inv by (auto simp: handle_message_def Let_def invoked_def split: if_splits)
  from auth scammer wf run show ?thesis
  proof (cases rule: handle_message_cases)
    case detect_fails
    then show ?thesis using inv by (simp add: invoked_simps)
  next
    case (reply_fails d)
    then show ?thesis using inv by (simp add: invoked_simps)
  next
    case (replied d i r s6)
    have id6: "sessionId s6 = req_sessionId body"
      using replied(2) loaded_sessionId [OF wf] by (simp add: scored_fields)
    have cs6: "callback_sent s6 = callback_sent (session_of (sessions st) (req_sessionId body))"
      using replied(2) by (simp add: scored_fields loaded_fields)
    have due: "callback_due s6"
    proof (rule ccontr)
      assume "\<not> callback_due s6"
      then have "evs = []" using replied(4) by simp
      then show False using inv by (simp add: invoked_simps)
    qed
    then have ncs: "\<not> callback_sent s6" by (simp add: callback_due_def)
    show ?thesis
    proof (cases "post_ok w 0 \<or> post_ok w 1 \<or> post_ok w 2")
      case True
      note r = replied(5) [OF due True]
      have "k = req_sessionId body"
        using inv r id6 by (simp add: invoked_simps report_sessionId)
      then show ?thesis
        using auth scammer replied(3) due r True ncs cs6 by auto
    next
      case False
      note r = replied(6) [OF due False]
      have "k = req_sessionId body"
        using inv r id6 by (simp add: invoked_simps report_sessionId)
      then show ?thesis
        using auth scammer replied(3) due r False ncs cs6 by auto
    qed
  qed
qed

lemma step_due:
  assumes wf: "wf_store (sessions st)"
    and auth: "x_api_key = Some (API_KEY cfg)" and scammer: "sender (message body) = ''scammer''"
    and run: "handle_message cfg w x_api_key body st = (st', evs, res)"
    and res: "res = Inr r"
    and ncs: "\<not> callback_sent (session_of (sessions st) (req_sessionId body))"
    and act: "agent_active (session_of (sessions st') (req_sessionId body))"
    and fin: "should_finalize (session_of (sessions st') (req_sessionId body))"
  shows "invoked (req_sessionId body) evs"
  using auth scammer wf run
proof (cases rule: handle_message_cases)
  case detect_fails
  then show ?thesis using res by simp
next
  case (reply_fails d)
  then show ?thesis using res by simp
next
  case (replied d i r' s6)
  have id6: "sessionId s6 = req_sessionId body"
    using replied(2) loaded_sessionId [OF wf] by (simp add: scored_fields)
  have cs6: "\<not> callback_sent s6"
    using replied(2) ncs by (simp add: scored_fields loaded_fields)
  have due: "callback_due s6"
  proof (rule ccontr)
    assume n: "\<not> callback_due s6"
    then have "session_of (sessions st') (req_sessionId body) = s6"
      using replied(4) by (simp add: session_of_def)
    then show False using n act fin cs6 by (simp add: callback_due_def)
  qed
  show ?thesis
  proof (cases "post_ok w 0 \<or> post_ok w 1 \<or> post_ok w 2")
    case True
    then show ?thesis using replied(5) [OF due True] id6
      by (simp add: invoked_simps report_sessionId)
  next
    case False
    then show ?thesis using replied(6) [OF due False] id6
      by (simp add: invoked_simps report_sessionId)
  qed
qed


lemma step_rejected:
  assumes "\<not> (x_api_key = Some (API_KEY cfg) \<and> sender (message body) = ''scammer'')"
    and "handle_message cfg w x_api_key body st = (st', evs, res)"
  shows "st' = st" and "evs = []"
  using assms by (auto simp: handle_message_def Let_def split: if_splits)

text \<open>the session named by an accepted request, after the request\<close>

lemma step_session:
  assumes auth: "x_api_key = Some (API_KEY cfg)" and scammer: "sender (message body) = ''scammer''"
    and wf: "wf_store (sessions st)"
    and run: "handle_message cfg w x_api_key body st = (st', evs, res)"
  shows "\<exists>s'. map_of (sessions st') (req_sessionId body) = Some s'
           \<and> (agent_active (session_of (sessions st) (req_sessionId body)) \<longrightarrow> agent_active s')
           \<and> (callback_sent (session_of (sessions st) (req_sessionId body))
                \<longrightarrow> callback_sent s' \<and> evs = [])
           \<and> (callback_sent s' \<and> \<not> callback_sent (session_of (sessions st) (req_sessionId body))
                \<longrightarrow> delivered (req_sessionId body) evs
                    \<and> (post_ok w 0 \<or> post_ok w 1 \<or> post_ok w 2))
           \<and> (delivered (req_sessionId body) evs \<longrightarrow> callback_sent s')
           \<and> (\<forall>k. k \<noteq> req_sessionId body \<longrightarrow> \<not> invoked k evs \<and> \<not> delivered k evs)"
  using auth scammer wf run
proof (cases rule: handle_message_cases)
  case detect_fails
  then show ?thesis by (simp add: loaded_fields invoked_simps delivered_simps)
next
  case (reply_fails d)
  then show ?thesis by (simp add: loaded_fields scored_fields invoked_simps delivered_simps)
next
  case (replied d i r s6)
  have id6: "sessionId s6 = req_sessionId body"
    using replied(2) loaded_sessionId [OF wf] by (simp add: scored_fields)
  have cs6: "callback_sent s6 = callback_sent (session_of (sessions st) (req_sessionId body))"
    using replied(2) by (simp add: scored_fields loaded_fields)
  have ac6: "agent_active (session_of (sessions st) (req_sessionId body)) \<Longrightarrow> agent_active s6"
    using replied(2) by (simp add: scored_fields loaded_fields)
  show ?thesis
  proof (cases "callback_due s6")
    case False
    then show ?thesis
      using replied(4) cs6 ac6 by (auto simp: invoked_simps delivered_simps)
  next
    case due: True
    then have ncs: "\<not> callback_sent s6" by (simp add: callback_due_def)
    show ?thesis
    proof (cases "post_ok w 0 \<or> post_ok w 1 \<or> post_ok w 2")
      case True
      then show ?thesis
        using replied(5) [OF due True] cs6 ac6 ncs id6
        by (auto simp: invoked_simps delivered_simps report_sessionId)
    next
      case False
      then show ?thesis
        using replied(6) [OF due False] cs6 ac6 ncs id6
        by (auto simp: invoked_simps delivered_simps report_sessionId)
    qed
  qed
qed

text \<open>any session, over any request\<close>

lemma step_any:
  assumes wf: "wf_store (sessions st)"
    and run: "handle_message cfg w x_api_key body st = (st', evs, res)"
  shows "(\<forall>s'. map_of (sessions st') k = Some s' \<and> callback_sent s'
                 \<and> \<not> callback_sent (session_of (sessions st) k)
            \<longrightarrow> delivered k evs \<and> (post_ok w 0 \<or> post_ok w 1 \<or> post_ok w 2))
         \<and> (delivered k evs \<longrightarrow> (\<exists>s'. map_of (sessions st') k = Some s' \<and> callback_sent s'))
         \<and> (\<forall>s. map_of (sessions st) k = Some s \<and> callback_sent s
               \<longrightarrow> \<not> invoked k evs \<and> \<not> delivered k evs
                   \<and> (map_of (sessions st') k = None
                        \<or> (\<exists>s'. map_of (sessions st') k = Some s' \<and> callback_sent s')))
         \<and> (\<forall>s. map_of (sessions st) k = Some s \<and> agent_active s
               \<longrightarrow> map_of (sessions st') k = None
                   \<or> (\<exists>s'. map_of (sessions st') k = Some s' \<and> agent_active s'))"
proof (cases "x_api_key = Some (API_KEY cfg) \<and> sender (message body) = ''scammer''")
  case False
  then have "st' = st" "evs = []" using step_rejected [OF _ run] by blast+
  then show ?thesis by (auto simp: session_of_def invoked_simps delivered_simps)
next
  case True
  then have auth: "x_api_key = Some (API_KEY cfg)" and scammer: "sender (message body) = ''scammer''"
    by simp_all
  note ss = step_session [OF auth scammer wf run]
  show ?thesis
  proof (cases "k = req_sessionId body")
    case True
    then show ?thesis using ss by (auto simp: session_of_def invoked_simps delivered_simps)
  next
    case False
    have fr: "map_of (sessions st') k = None \<or> map_of (sessions st') k = map_of (sessions st) k"
      using handle_message_frame(2) [OF wf run False] .
    have no: "\<not> invoked k evs" "\<not> delivered k evs" using ss False by auto
    show ?thesis using fr no by (auto simp: session_of_def split: option.splits)
  qed
qed


text \<open>runs\<close>

lemma run_sent_stays:
  assumes "wf_store (sessions st)" and "map_of (sessions st) k = Some s" and "callback_sent s"
    and "j < length (run cfg rqs st)"
    and "\<forall>m<j. map_of (sessions (fst (run cfg rqs st ! m))) k \<noteq> None"
  shows "\<not> invoked k (fst (snd (run cfg rqs st ! j)))"
  using assms
proof (induction rqs arbitrary: st s j)
  case Nil
  then show ?case by simp
next
  case (Cons x rqs)
  obtain w key body where x: "x = (w, key, body)" by (cases x)
  obtain st1 evs1 res1 where h: "handle_message cfg w key body st = (st1, evs1, res1)"
    by (cases "handle_message cfg w key body st")
  have r: "run cfg (x # rqs) st = (st1, evs1, res1) # run cfg rqs st1"
    using x h by (simp add: Let_def)
  note sa = step_any [OF Cons.prems(1) h, of k]
  have wf1: "wf_store (sessions st1)" using handle_message_frame(1) [OF Cons.prems(1) h] .
  show ?case
  proof (cases j)
    case 0
    then show ?thesis using r sa Cons.prems(2,3) by simp
  next
    case (Suc j')
    have "map_of (sessions st1) k \<noteq> None"
      using Cons.prems(5) Suc r by auto
    then obtain s1 where s1: "map_of (sessions st1) k = Some s1" "callback_sent s1"
      using sa Cons.prems(2,3) by auto
    have len: "j' < length (run cfg rqs st1)" using Cons.prems(4) Suc r by simp
    have pres: "\<forall>m<j'. map_of (sessions (fst (run cfg rqs st1 ! m))) k \<noteq> None"
    proof (intro allI impI)
      fix m assume "m < j'"
      then have "Suc m < j" using Suc by simp
      then show "map_of (sessions (fst (run cfg rqs st1 ! m))) k \<noteq> None"
        using Cons.prems(5) r by fastforce
    qed
    show ?thesis using Cons.IH [OF wf1 s1 len pres] Suc r by simp
  qed
qed

lemma wf_run:
  assumes "wf_store (sessions st)"
  shows "list_all (\<lambda>out. wf_store (sessions (fst out))) (run cfg rqs st)"
  using assms
proof (induction rqs arbitrary: st)
  case Nil
  then show ?case by simp
next
  case (Cons x rqs)
  obtain w key body where x: "x = (w, key, body)" by (cases x)
  obtain st1 evs1 res1 where h: "handle_message cfg w key body st = (st1, evs1, res1)"
    by (cases "handle_message cfg w key body st")
  have wf1: "wf_store (sessions st1)" using handle_message_frame(1) [OF Cons.prems h] .
  show ?case using x h wf1 Cons.IH [OF wf1] by (simp add: Let_def)
qed

lemma run_delivered_once:
  assumes "wf_store (sessions st)" and "i < j" and "j < length (run cfg rqs st)"
    and "delivered k (fst (snd (run cfg rqs st ! i)))"
    and "\<forall>m. i \<le> m \<and> m < j \<longrightarrow> map_of (sessions (fst (run cfg rqs st ! m))) k \<noteq> None"
  shows "\<not> invoked k (fst (snd (run cfg rqs st ! j)))"
  using assms
proof (induction rqs arbitrary: st i j)
  case Nil
  then show ?case by simp
next
  case (Cons x rqs)
  obtain w key body where x: "x = (w, key, body)" by (cases x)
  obtain st1 evs1 res1 where h: "handle_message cfg w key body st = (st1, evs1, res1)"
    by (cases "handle_message cfg w key body st")
  have r: "run cfg (x # rqs) st = (st1, evs1, res1) # run cfg rqs st1"
    using x h by (simp add: Let_def)
  note sa = step_any [OF Cons.prems(1) h, of k]
  have wf1: "wf_store (sessions st1)" using handle_message_frame(1) [OF Cons.prems(1) h] .
  obtain j' where j: "j = Suc j'" using Cons.prems(2) by (cases j) auto
  have len: "j' < length (run cfg rqs st1)" using Cons.prems(3) j r by simp
  show ?case
  proof (cases i)
    case 0
    then have "delivered k evs1" using Cons.prems(4) r by simp
    then obtain s1 where s1: "map_of (sessions st1) k = Some s1" "callback_sent s1"
      using sa by auto
    have pres: "\<forall>m<j'. map_of (sessions (fst (run cfg rqs st1 ! m))) k \<noteq> None"
    proof (intro allI impI)
      fix m assume "m < j'"
      then have "i \<le> Suc m \<and> Suc m < j" using j 0 by simp
      then show "map_of (sessions (fst (run cfg rqs st1 ! m))) k \<noteq> None"
        using Cons.prems(5) r by fastforce
    qed
    show ?thesis using run_sent_stays [OF wf1 s1 len pres] j r by simp
  next
    case (Suc i')
    have lt: "i' < j'" using Cons.prems(2) Suc j by simp
    have del: "delivered k (fst (snd (run cfg rqs st1 ! i')))"
      using Cons.prems(4) Suc r by simp
    have pres: "\<forall>m. i' \<le> m \<and> m < j' \<longrightarrow> map_of (sessions (fst (run cfg rqs st1 ! m))) k \<noteq> None"
    proof (intro allI impI)
      fix m assume "i' \<le> m \<and> m < j'"
      then have "i \<le> Suc m \<and> Suc m < j" using j Suc by simp
      then show "map_of (sessions (fst (run cfg rqs st1 ! m))) k \<noteq> None"
        using Cons.prems(5) r by fastforce
    qed
    show ?thesis using Cons.IH [OF wf1 lt len del pres] j r by simp
  qed
qed

lemma step_scored:
  assumes auth: "x_api_key = Some (API_KEY cfg)" and scammer: "sender (message body) = ''scammer''"
    and wf: "wf_store (sessions st)"
    and run: "handle_message cfg w x_api_key body st = (st', evs, res)"
    and det: "detect_scam (IS_RENDER cfg) (classifier w) (text_of (message body)) = Some d"
  shows "confidence (session_of (sessions st') (req_sessionId body))
           = (if fst d
              then fadd (confidence (session_of (sessions st) (req_sessionId body)))
                        (fmul (snd d) (Finite (double_of (4 / 10))))
              else confidence (session_of (sessions st) (req_sessionId body)))"
    and "agent_active (session_of (sessions st') (req_sessionId body))
           \<longleftrightarrow> agent_active (session_of (sessions st) (req_sessionId body))
               \<or> fle (Finite (double_of (6 / 10)))
                     (confidence (session_of (sessions st') (req_sessionId body)))"
proof -
  define s5 where "s5 = scored d (loaded (now w) (req_sessionId body) (sessions st))"
  have "\<exists>s'. map_of (sessions st') (req_sessionId body) = Some s'
             \<and> confidence s' = confidence s5 \<and> agent_active s' = agent_active s5"
    using auth scammer wf run
  proof (cases rule: handle_message_cases)
    case detect_fails
    then show ?thesis using det by simp
  next
    case (reply_fails d')
    then show ?thesis using det by (simp add: s5_def)
  next
    case (replied d' i r s6)
    have d': "d' = d" using replied(1) det by simp
    have c6: "confidence s6 = confidence s5" "agent_active s6 = agent_active s5"
      using replied(2) d' by (simp_all add: s5_def)
    show ?thesis
    proof (cases "callback_due s6")
      case False
      then show ?thesis using replied(4) c6 by simp
    next
      case due: True
      show ?thesis
      proof (cases "post_ok w 0 \<or> post_ok w 1 \<or> post_ok w 2")
        case True
        then show ?thesis using replied(5) [OF due True] c6 by simp
      next
        case False
        then show ?thesis using replied(6) [OF due False] c6 by simp
      qed
    qed
  qed
  then obtain s' where s': "session_of (sessions st') (req_sessionId body) = s'"
      "confidence s' = confidence s5" "agent_active s' = agent_active s5"
    by (auto simp: session_of_def)
  show "confidence (session_of (sessions st') (req_sessionId body))
           = (if fst d
              then fadd (confidence (session_of (sessions st) (req_sessionId body)))
                        (fmul (snd d) (Finite (double_of (4 / 10))))
              else confidence (session_of (sessions st) (req_sessionId body)))"
    using s' by (simp add: s5_def scored_fields loaded_fields)
  show "agent_active (session_of (sessions st') (req_sessionId body))
           \<longleftrightarrow> agent_active (session_of (sessions st) (req_sessionId body))
               \<or> fle (Finite (double_of (6 / 10)))
                     (confidence (session_of (sessions st') (req_sessionId body)))"
    using s' scored_fields(6) [of d "loaded (now w) (req_sessionId body) (sessions st)"]
    by (simp add: s5_def loaded_fields)
qed

lemma lit_product:
  "fmul (Finite (double_of (9 / 10))) (Finite (double_of (4 / 10)))
     = Finite (6485183463413515 / 18014398509481984)"
  by code_simp

lemma lit_first: "fadd (Finite 0) (Finite (6485183463413515 / 18014398509481984)) = Finite (6485183463413515 / 18014398509481984)"
  by code_simp

lemma lit_second: "fadd (Finite (6485183463413515 / 18014398509481984)) (Finite (6485183463413515 / 18014398509481984)) = Finite (6485183463413515 / 9007199254740992)"
  by code_simp

lemma lit_first_below: "\<not> fle (Finite (double_of (6 / 10))) (Finite (6485183463413515 / 18014398509481984))"
  by code_simp

lemma lit_second_above: "fle (Finite (double_of (6 / 10))) (Finite (6485183463413515 / 9007199254740992))"
  by code_simp

lemma lit_036: "6485183463413515 / 18014398509481984 \<noteq> double_of (36 / 100)"
  by code_simp

lemma lit_072: "6485183463413515 / 9007199254740992 \<noteq> double_of (72 / 100)"
  by code_simp

lemma step_scored_09:
  assumes "x_api_key = Some (API_KEY cfg)" and "sender (message body) = ''scammer''"
    and "wf_store (sessions st)"
    and "handle_message cfg w x_api_key body st = (st', evs, res)"
    and "detect_scam (IS_RENDER cfg) (classifier w) (text_of (message body))
           = Some (True, Finite (double_of (9 / 10)))"
  shows "confidence (session_of (sessions st') (req_sessionId body))
           = fadd (confidence (session_of (sessions st) (req_sessionId body)))
                  (Finite (6485183463413515 / 18014398509481984))"
  using step_scored(1) [OF assms] unfolding fst_conv snd_conv lit_product
  by (simp only: if_True)

lemma demo_detect_otp:
  "detect_scam True (\<lambda>t. None) ''otp'' = Some (True, Finite (double_of (9 / 10)))"
  by code_simp

lemma wf_empty: "wf_store (sessions empty_state)"
  by (simp add: wf_store_def empty_state_def)


lemma should_finalize_iff:
  "should_finalize s \<longleftrightarrow>
     (get_list (intelligence s) ''upiIds'' \<noteq> [] \<or> get_list (intelligence s) ''phishingLinks'' \<noteq> []
      \<or> get_list (intelligence s) ''phoneNumbers'' \<noteq> [] \<or> get_list (intelligence s) ''bankAccounts'' \<noteq> [])
     \<and> 8 \<le> total_messages s"
  by (simp add: should_finalize_def Let_def)

lemma step_two_turns:
  assumes wf: "wf_store (sessions st)" and auth: "x_api_key = Some (API_KEY cfg)"
    and s8: "sender (message b8) = ''scammer''" and s9: "sender (message b9) = ''scammer''"
    and i8: "req_sessionId b8 = k" and i9: "req_sessionId b9 = k"
    and h8: "handle_message cfg w8 x_api_key b8 st = (st8, evs8, Inr r8)"
    and h9: "handle_message cfg w9 x_api_key b9 st8 = (st9, evs9, res9)"
    and ncs: "\<not> callback_sent (session_of (sessions st) k)"
    and act: "agent_active (session_of (sessions st8) k)"
    and fin: "should_finalize (session_of (sessions st8) k)"
    and ok: "post_ok w8 0 \<or> post_ok w8 1 \<or> post_ok w8 2"
  shows "invoked k evs8 \<and> delivered k evs8 \<and> evs9 = [] \<and> \<not> invoked k evs9
         \<and> callback_sent (session_of (sessions st8) k)
         \<and> callback_sent (session_of (sessions st9) k)"
proof -
  have inv8: "invoked k evs8"
    using step_due [OF wf auth s8 h8 refl] ncs act fin unfolding i8 by blast
  note si = step_invoked [OF wf h8 inv8]
  then obtain s6 where s6: "map_of (sessions st8) k = Some (s6\<lparr>callback_sent := True\<rparr>)"
    and e8: "evs8 = callback_trace (GUVI_CALLBACK_URL cfg) (post_ok w8) (report s6) @ [LogInfo k]"
    using ok by auto
  have del8: "delivered k evs8" unfolding e8 by (simp add: delivered_simps)
  have cs8: "callback_sent (session_of (sessions st8) k)"
    using s6 by (simp add: session_of_def)
  have wf8: "wf_store (sessions st8)" using handle_message_frame(1) [OF wf h8] .
  note ss = step_session [OF auth s9 wf8 h9, unfolded i9]
  then have e9: "evs9 = []" and cs9: "callback_sent (session_of (sessions st9) k)"
    using cs8 by (auto simp: session_of_def)
  show ?thesis using inv8 del8 e9 cs8 cs9 by (simp add: invoked_simps)
qed



lemma wf_demo7: "wf_store (sessions demo_state7)"
  by (simp add: wf_store_def demo_state7_def demo_session7_def)

lemma demo_turn8_delivered:
  "handle_message demo_cfg (demo_world (\<lambda>n. n = 2)) (Some ''secret'')
     (demo_body ''s1'' ''scammer'' ''hi'') demo_state7
   = (\<lparr>sessions = [(''s1'', demo_session7\<lparr>total_messages := 8, callback_sent := True\<rparr>)],
       agent_chains = [(''s1'', [(''hi'', ''ok'')])]\<rparr>,
      [Post (GUVI_CALLBACK_URL demo_cfg) (report (demo_session7\<lparr>total_messages := 8\<rparr>)) 10,
       Sleep (Finite 1),
       Post (GUVI_CALLBACK_URL demo_cfg) (report (demo_session7\<lparr>total_messages := 8\<rparr>)) 10,
       Sleep (Finite 2),
       Post (GUVI_CALLBACK_URL demo_cfg) (report (demo_session7\<lparr>total_messages := 8\<rparr>)) 10,
       LogInfo ''s1''],
      Inr \<lparr>status = ''success'', reply = ''ok''\<rparr>)"
  by code_simp

lemma demo_turn8_failed:
  "handle_message demo_cfg (demo_world (\<lambda>n. False)) (Some ''secret'')
     (demo_body ''s1'' ''scammer'' ''hi'') demo_state7
   = (\<lparr>sessions = [(''s1'', demo_session7\<lparr>total_messages := 8\<rparr>)],
       agent_chains = [(''s1'', [(''hi'', ''ok'')])]\<rparr>,
      [Post (GUVI_CALLBACK_URL demo_cfg) (report (demo_session7\<lparr>total_messages := 8\<rparr>)) 10,
       Sleep (Finite 1),
       Post (GUVI_CALLBACK_URL demo_cfg) (report (demo_session7\<lparr>total_messages := 8\<rparr>)) 10,
       Sleep (Finite 2),
       Post (GUVI_CALLBACK_URL demo_cfg) (report (demo_session7\<lparr>total_messages := 8\<rparr>)) 10,
       LogWarning ''s1'' 3],
      Inr \<lparr>status = ''success'', reply = ''ok''\<rparr>)"
  by code_simp

lemma demo_turn8_errors:
  "handle_message demo_cfg (demo_world_at 0 demo_errors) (Some ''secret'')
     (demo_body ''s1'' ''scammer'' ''hi'') demo_state7
   = (\<lparr>sessions = [(''s1'', demo_session7\<lparr>total_messages := 8\<rparr>)],
       agent_chains = [(''s1'', [(''hi'', ''ok'')])]\<rparr>,
      [Post (GUVI_CALLBACK_URL demo_cfg) (report (demo_session7\<lparr>total_messages := 8\<rparr>)) 10,
       Sleep (Finite 1),
       Post (GUVI_CALLBACK_URL demo_cfg) (report (demo_session7\<lparr>total_messages := 8\<rparr>)) 10,
       Sleep (Finite 2),
       Post (GUVI_CALLBACK_URL demo_cfg) (report (demo_session7\<lparr>total_messages := 8\<rparr>)) 10,
       LogWarning ''s1'' 3],
      Inr \<lparr>status = ''success'', reply = ''ok''\<rparr>)"
  by code_simp

text \<open>the requests of \<open>demo_requests\<close> after the first, one by one\<close>

lemma demo_evicted:
  "handle_message demo_cfg demo_later (Some ''secret'') (demo_body ''s2'' ''scammer'' ''hi'')
     \<lparr>sessions = [(''s1'', demo_session7\<lparr>total_messages := 8, callback_sent := True\<rparr>)],
       agent_chains = [(''s1'', [(''hi'', ''ok'')])]\<rparr>
   = (\<lparr>sessions = [(''s2'', demo_session_s2)], agent_chains = []\<rparr>, [],
      Inr \<lparr>status = ''success'', reply = ''I am not very sure what this means. Can you please explain?''\<rparr>)"
  by code_simp

lemma demo_created_again:
  "handle_message demo_cfg demo_later (Some ''secret'')
     (demo_body ''s1'' ''scammer'' ''otp 9876543210'')
     \<lparr>sessions = [(''s2'', demo_session_s2)], agent_chains = []\<rparr>
   = (\<lparr>sessions = [(''s2'', demo_session_s2),
                    (''s1'', demo_session7\<lparr>total_messages := 1,
                       confidence := Finite (6485183463413515 / 18014398509481984),
                       agent_active := False, last_active := 100000\<rparr>)],
       agent_chains = []\<rparr>, [],
      Inr \<lparr>status = ''success'', reply = ''I am not very sure what this means. Can you please explain?''\<rparr>)"
  by code_simp

lemma demo_activated:
  "handle_message demo_cfg demo_later (Some ''secret'') (demo_body ''s1'' ''scammer'' ''otp'')
     \<lparr>sessions = [(''s2'', demo_session_s2),
                  (''s1'', demo_session7\<lparr>total_messages := 1,
                     confidence := Finite (6485183463413515 / 18014398509481984),
                     agent_active := False, last_active := 100000\<rparr>)],
       agent_chains = []\<rparr>
   = (demo_again 2 0, [], Inr \<lparr>status = ''success'', reply = ''ok''\<rparr>)"
  by code_simp

lemma demo_turn_3:
  "handle_message demo_cfg demo_later (Some ''secret'') (demo_body ''s1'' ''scammer'' ''hi'')
     (demo_again 2 0)
   = (demo_again 3 1, [], Inr \<lparr>status = ''success'', reply = ''ok''\<rparr>)"
  by code_simp

lemma demo_turn_4:
  "handle_message demo_cfg demo_later (Some ''secret'') (demo_body ''s1'' ''scammer'' ''hi'')
     (demo_again 3 1)
   = (demo_again 4 2, [], Inr \<lparr>status = ''success'', reply = ''ok''\<rparr>)"
  by code_simp

lemma demo_turn_5:
  "handle_message demo_cfg demo_later (Some ''secret'') (demo_body ''s1'' ''scammer'' ''hi'')
     (demo_again 4 2)
   = (demo_again 5 3, [], Inr \<lparr>status = ''success'', reply = ''ok''\<rparr>)"
  by code_simp

lemma demo_turn_6:
  "handle_message demo_cfg demo_later (Some ''secret'') (demo_body ''s1'' ''scammer'' ''hi'')
     (demo_again 5 3)
   = (demo_again 6 4, [], Inr \<lparr>status = ''success'', reply = ''ok''\<rparr>)"
  by code_simp

lemma demo_turn_7:
  "handle_message demo_cfg demo_later (Some ''secret'') (demo_body ''s1'' ''scammer'' ''hi'')
     (demo_again 6 4)
   = (demo_again 7 5, [], Inr \<lparr>status = ''success'', reply = ''ok''\<rparr>)"
  by code_simp

lemma demo_reported_again:
  "handle_message demo_cfg demo_later (Some ''secret'') (demo_body ''s1'' ''scammer'' ''hi'')
     (demo_again 7 5)
   = (\<lparr>sessions = [(''s2'', demo_session_s2),
                    (''s1'', demo_session7\<lparr>total_messages := 8, last_active := 100000,
                       callback_sent := True\<rparr>)],
       agent_chains = [(''s1'', (''otp'', ''ok'') # replicate 6 (''hi'', ''ok''))]\<rparr>,
      [Post (GUVI_CALLBACK_URL demo_cfg)
         (report (demo_session7\<lparr>total_messages := 8, last_active := 100000\<rparr>)) 10,
       LogInfo ''s1''],
      Inr \<lparr>status = ''success'', reply = ''ok''\<rparr>)"
  by code_simp

lemmas demo_run =
  demo_requests_def run.simps Let_def fst_conv demo_turn8_delivered demo_evicted
  demo_created_again demo_activated demo_turn_3 demo_turn_4 demo_turn_5 demo_turn_6 demo_turn_7
  demo_reported_again


section \<open>The detector\<close>

text \<open>
  C5. In lightweight mode (\<open>IS_RENDER\<close> true), for every text: if the lower-cased text
  contains one of the strong keywords "otp", "upi pin", "pin", "one time password" as a
  substring, \<open>detect_scam\<close> returns (true, 0.9); otherwise, if at least 2 of the 12
  suspicious keywords occur in it as substrings, it returns (true, 0.7); otherwise it
  returns (false, 0.0), in particular when exactly one suspicious keyword and no strong
  keyword occurs. The scores are the float literals of the source; the classification
  model is never consulted.
\<close>

theorem detect_scam_lightweight:
  "detect_scam True model t =
     (if \<exists>sk \<in> {''otp'', ''upi pin'', ''pin'', ''one time password''}. sublist sk (lower t)
      then Some (True, Finite (double_of (9 / 10)))
      else if 2 \<le> card {kw \<in> {''urgent'', ''verify'', ''account'', ''blocked'', ''suspended'',
                ''kyc'', ''refund'', ''debit'', ''credit'', ''bank'', ''upi'', ''money''}.
                sublist kw (lower t)}
      then Some (True, Finite (double_of (7 / 10)))
      else Some (False, Finite 0))"
  unfolding detect_scam_def Let_def any_strong_iff hits_card detector_keywords_set
  by simp

text \<open>
  C6, as the code has it. In model-backed mode (\<open>IS_RENDER\<close> false), whenever the
  classification model answers, with whatever label and with a score that is not NaN
  (a finite float or an infinity), for every text whose lower-casing contains a strong
  keyword \<open>detect_scam\<close> returns scam-like = true, and the returned score is
  \<open>max(score, 0.85)\<close> as Python computes it: at least the float literal 0.85, never
  below the model's score, and not changed by the rule for suspicious keywords, whose
  floor 0.6 lies below 0.85.
\<close>

theorem detect_scam_strong_keyword:
  assumes "model (lower t) = Some (label, score)"
    and "score \<noteq> NaN"
    and "\<exists>sk \<in> {''otp'', ''upi pin'', ''pin'', ''one time password''}. sublist sk (lower t)"
  shows "detect_scam False model t = Some (True, py_max score (Finite (double_of (85 / 100))))
         \<and> fle (Finite (double_of (85 / 100))) (py_max score (Finite (double_of (85 / 100))))
         \<and> fle score (py_max score (Finite (double_of (85 / 100))))"
proof -
  define a where "a = double_of (85 / 100)"
  define b where "b = double_of (6 / 10)"
  have ba: "b < a" unfolding a_def b_def by (rule lit_06_lt_085)
  have strong: "any_strong (lower t)" using assms(3) by (simp add: any_strong_iff)
  have floor: "py_max (py_max score (Finite a)) (Finite b) = py_max score (Finite a)"
    using ba by (cases score) (auto simp: py_max_def)
  have "detect_scam False model t = Some (True, py_max score (Finite a))"
    unfolding detect_scam_def Let_def a_def [symmetric] b_def [symmetric]
    using assms(1) strong by (simp add: floor)
  moreover have "fle (Finite a) (py_max score (Finite a))"
    using assms(2) by (cases score) (auto simp: py_max_def)
  moreover have "fle score (py_max score (Finite a))"
    using assms(2) by (cases score) (auto simp: py_max_def)
  ultimately show ?thesis unfolding a_def by blast
qed

theorem detect_scam_strong_keyword_witness:
  "detect_scam False (\<lambda>x. Some (''safe'', Finite (1 / 2))) ''Share the OTP''
     = Some (True, Finite (7656119366529843 / 9007199254740992))
   \<and> fle (Finite (double_of (85 / 100))) (Finite (7656119366529843 / 9007199254740992))
   \<and> fle (Finite (1 / 2)) (Finite (7656119366529843 / 9007199254740992))"
proof -
  have h1: "(\<lambda>x. Some (''safe'', Finite (1 / 2))) (lower ''Share the OTP'')
              = Some (''safe'', Finite (1 / 2))"
    by simp
  have h2: "Finite (1 / 2) \<noteq> NaN" by simp
  have h3: "\<exists>sk \<in> {''otp'', ''upi pin'', ''pin'', ''one time password''}.
              sublist sk (lower ''Share the OTP'')"
    by code_simp
  have v: "py_max (Finite (1 / 2)) (Finite (double_of (85 / 100)))
             = Finite (7656119366529843 / 9007199254740992)"
    by code_simp
  show ?thesis
    using detect_scam_strong_keyword [OF h1 h2 h3] unfolding v .
qed

text \<open>
  C6 as stated holds regardless of the score of the model. A model that answers with the
  score NaN on a text with the strong keyword "otp" gets (true, NaN) back, because
  \<open>max(nan, 0.85)\<close> is \<open>nan\<close> in Python, and NaN is not at least 0.85.
\<close>

theorem detect_scam_strong_keyword_counterexample:
  "(\<lambda>x. Some (''safe'', NaN)) (lower ''Share the OTP'') = Some (''safe'', NaN)
   \<and> sublist ''otp'' (lower ''Share the OTP'')
   \<and> detect_scam False (\<lambda>x. Some (''safe'', NaN)) ''Share the OTP'' = Some (True, NaN)
   \<and> \<not> fle (Finite (double_of (85 / 100))) NaN"
  by code_simp

section \<open>The extractor\<close>

text \<open>
  C8, as the code has it. The suspicious-keyword set of the extractor has exactly 16
  terms, and for every text the suspiciousKeywords category returned by
  \<open>extract_intelligence\<close> holds exactly those of the 16 listed terms that occur as
  substrings of the lower-cased text, each once.
\<close>

theorem extract_suspicious_keywords:
  "card (set extract_SUSPICIOUS_KEYWORDS) = 16
   \<and> set (get_list (extract_intelligence t) ''suspiciousKeywords'')
       = {kw \<in> {''otp'', ''upi'', ''bank'', ''verify'', ''blocked'', ''urgent'', ''suspended'',
                 ''kyc'', ''pin'', ''refund'', ''gift card'', ''crypto'', ''bitcoin'', ''btc'',
                 ''gold'', ''money''}. sublist kw (lower t)}
   \<and> distinct (get_list (extract_intelligence t) ''suspiciousKeywords'')"
proof -
  have c: "card (set extract_SUSPICIOUS_KEYWORDS) = 16"
    using distinct_card [OF extract_keywords_distinct]
    by (simp add: extract_SUSPICIOUS_KEYWORDS_def)
  have s: "set (get_list (extract_intelligence t) ''suspiciousKeywords'')
             = {kw \<in> set extract_SUSPICIOUS_KEYWORDS. sublist kw (lower t)}"
    by (auto simp: suspiciousKeywords_eq contains_iff_sublist)
  have d: "distinct (get_list (extract_intelligence t) ''suspiciousKeywords'')"
    by (simp add: suspiciousKeywords_eq extract_keywords_distinct)
  show ?thesis using c s d unfolding extract_keywords_set by simp
qed

text \<open>
  C8 as stated speaks of exactly 15 terms; the set of the code has 16, the ones the
  claim itself lists.
\<close>

theorem extract_suspicious_keywords_counterexample:
  "card (set extract_SUSPICIOUS_KEYWORDS) \<noteq> 15"
  using distinct_card [OF extract_keywords_distinct]
  by (simp add: extract_SUSPICIOUS_KEYWORDS_def)

text \<open>
  C10. For the text "+91-9876543210" the extractor returns "+91-9876543210" as a phone
  number and also "9876543210" as a bank account: a bank-account candidate is removed
  only when its digits equal all the digits of some phone-number candidate, here
  "919876543210" with the country code, so the bare 10-digit run stays. The last
  conjunct is the rule itself, for every text.
\<close>

theorem prefixed_phone_kept_as_bank_account:
  "get_list (extract_intelligence ''+91-9876543210'') ''phoneNumbers'' = [''+91-9876543210'']
   \<and> get_list (extract_intelligence ''+91-9876543210'') ''bankAccounts'' = [''9876543210'']
   \<and> normalize_number ''+91-9876543210'' = ''919876543210''
   \<and> normalize_number ''9876543210'' = ''9876543210''
   \<and> set (get_list (extract_intelligence t) ''bankAccounts'')
       = {acc \<in> set (findall BANK_ACCOUNT_PATTERN t).
            normalize_number acc \<notin> normalize_number ` set (findall PHONE_PATTERN t)}"
proof -
  have 1: "get_list (extract_intelligence ''+91-9876543210'') ''phoneNumbers'' = [''+91-9876543210'']"
    by code_simp
  have 2: "get_list (extract_intelligence ''+91-9876543210'') ''bankAccounts'' = [''9876543210'']"
    by code_simp
  have 3: "normalize_number ''+91-9876543210'' = ''919876543210''"
    by code_simp
  have 4: "normalize_number ''9876543210'' = ''9876543210''"
    by code_simp
  show ?thesis using 1 2 3 4 bankAccounts_set by simp
qed

text \<open>
  C7 is what the code means to do and does not do on the text "+91 9876543210". The
  docstring of \<open>extract_intelligence\<close> promises "zero overlaps" and the comment at the
  filter says "Remove phone numbers from bank accounts (normalized comparison)". In
  that text the run 9876543210 is word-bounded and there is no @, yet the phone pattern
  takes the prefix into the match, the digits of the phone candidate are 919876543210,
  and the bank-account candidate 9876543210 is compared with those: it is kept, so the
  same number is returned as the phone number "+91 9876543210" and as the bank account
  9876543210, and 9876543210 itself is not among the phone numbers. Written without the
  separator, "+919876543210", the bank-account candidate is 919876543210 and is removed.
\<close>

theorem phone_number_kept_as_bank_account:
  "''+91 9876543210'' = ''+91 '' @ ''9876543210'' @ []
   \<and> \<not> is_word (last ''+91 '')
   \<and> CHR ''@'' \<notin> set ''+91 9876543210''
   \<and> get_list (extract_intelligence ''+91 9876543210'') ''phoneNumbers'' = [''+91 9876543210'']
   \<and> get_list (extract_intelligence ''+91 9876543210'') ''bankAccounts'' = [''9876543210'']
   \<and> ''9876543210'' \<notin> set (get_list (extract_intelligence ''+91 9876543210'') ''phoneNumbers'')
   \<and> ''9876543210'' \<in> set (get_list (extract_intelligence ''+91 9876543210'') ''bankAccounts'')
   \<and> normalize_number ''+91 9876543210'' = ''919876543210''
   \<and> get_list (extract_intelligence ''+919876543210'') ''phoneNumbers'' = [''+919876543210'']
   \<and> get_list (extract_intelligence ''+919876543210'') ''bankAccounts'' = []"
proof -
  have 1: "''+91 9876543210'' = ''+91 '' @ ''9876543210'' @ []" by simp
  have 2: "\<not> is_word (last ''+91 '')" by (simp add: is_word_def)
  have 3: "CHR ''@'' \<notin> set ''+91 9876543210''" by simp
  have 4: "get_list (extract_intelligence ''+91 9876543210'') ''phoneNumbers'' = [''+91 9876543210'']"
    by code_simp
  have 5: "get_list (extract_intelligence ''+91 9876543210'') ''bankAccounts'' = [''9876543210'']"
    by code_simp
  have 6: "''9876543210'' \<notin> set (get_list (extract_intelligence ''+91 9876543210'') ''phoneNumbers'')"
    unfolding 4 by simp
  have 7: "''9876543210'' \<in> set (get_list (extract_intelligence ''+91 9876543210'') ''bankAccounts'')"
    unfolding 5 by simp
  have 8: "normalize_number ''+91 9876543210'' = ''919876543210''" by code_simp
  have 9: "get_list (extract_intelligence ''+919876543210'') ''phoneNumbers'' = [''+919876543210'']"
    by code_simp
  have 10: "get_list (extract_intelligence ''+919876543210'') ''bankAccounts'' = []"
    by code_simp
  show ?thesis using 1 2 3 4 5 6 7 8 9 10 by blast
qed

section \<open>The handler: rejected and ignored requests\<close>

text \<open>
  C3. A request whose X-API-Key header is missing (\<open>None\<close>) or differs from the
  configured secret fails with HTTP 401 "Invalid API key" and does nothing else: the
  state, that is every session and every conversation memory, is the one before, so no
  session was created, changed or evicted, and there is no effect on the outside. The
  result does not depend on the world \<open>w\<close>: neither the classifier nor the language
  model nor the callback endpoint is consulted.
\<close>

theorem unauthorized_rejected:
  assumes "x_api_key \<noteq> Some (API_KEY cfg)"
  shows "handle_message cfg w x_api_key body st
           = (st, [], Inl (HTTPException 401 ''Invalid API key''))"
  using assms by (simp add: handle_message_def)

theorem unauthorized_rejected_witness:
  "None \<noteq> Some (API_KEY demo_cfg)
   \<and> handle_message demo_cfg (demo_world (\<lambda>n. True)) None
        (demo_body ''s1'' ''scammer'' ''otp'') demo_state7
       = (demo_state7, [], Inl (HTTPException 401 ''Invalid API key''))
   \<and> Some ''guess'' \<noteq> Some (API_KEY demo_cfg)
   \<and> handle_message demo_cfg (demo_world (\<lambda>n. True)) (Some ''guess'')
        (demo_body ''s2'' ''scammer'' ''otp'') demo_state7
       = (demo_state7, [], Inl (HTTPException 401 ''Invalid API key''))"
proof -
  have h1: "None \<noteq> Some (API_KEY demo_cfg)" by simp
  have h2: "Some ''guess'' \<noteq> Some (API_KEY demo_cfg)" by (simp add: demo_cfg_def)
  show ?thesis
    using h1 h2 unauthorized_rejected [OF h1] unauthorized_rejected [OF h2] by blast
qed

text \<open>
  C4. An authorized request whose \<open>message.sender\<close> is not exactly "scammer" is answered
  with status "ignored" and an empty reply, and the whole state is left as it was: no
  session is created for the id, no field of any session changes, nothing is evicted,
  and nothing is done to the outside; the world \<open>w\<close> is not consulted.
\<close>

theorem non_scammer_ignored:
  assumes "x_api_key = Some (API_KEY cfg)" and "sender (message body) \<noteq> ''scammer''"
  shows "handle_message cfg w x_api_key body st
           = (st, [], Inr \<lparr>status = ''ignored'', reply = ''''\<rparr>)"
  using assms by (simp add: handle_message_def Let_def)

theorem non_scammer_ignored_witness:
  "Some ''secret'' = Some (API_KEY demo_cfg)
   \<and> sender (message (demo_body ''s1'' ''customer'' ''otp'')) \<noteq> ''scammer''
   \<and> handle_message demo_cfg (demo_world (\<lambda>n. True)) (Some ''secret'')
        (demo_body ''s1'' ''customer'' ''otp'') demo_state7
       = (demo_state7, [], Inr \<lparr>status = ''ignored'', reply = ''''\<rparr>)
   \<and> handle_message demo_cfg (demo_world (\<lambda>n. True)) (Some ''secret'')
        (demo_body ''s2'' ''Scammer'' ''otp'') empty_state
       = (empty_state, [], Inr \<lparr>status = ''ignored'', reply = ''''\<rparr>)"
proof -
  have h1: "Some ''secret'' = Some (API_KEY demo_cfg)" by (simp add: demo_cfg_def)
  have h2: "sender (message (demo_body ''s1'' ''customer'' ''otp'')) \<noteq> ''scammer''"
    by (simp add: demo_body_def)
  have h3: "sender (message (demo_body ''s2'' ''Scammer'' ''otp'')) \<noteq> ''scammer''"
    by (simp add: demo_body_def)
  show ?thesis
    using h1 h2 non_scammer_ignored [OF h1 h2] non_scammer_ignored [OF h1 h3] by blast
qed

section \<open>The handler: confidence and activation\<close>

text \<open>
  C2, as the code has it. The confidence is a Python float. An authorized request
  whose message is flagged as scam-like with score 0.9 replaces the session's
  confidence \<open>c\<close> by the double sum of \<open>c\<close> and the double product of 0.9 and 0.4,
  which is 6485183463413515 / 2^54 = 0.36000000000000004, one unit in the last place
  above the double 0.36. From a fresh session (confidence 0.0, not active) the
  confidence is that product after the first such request, with the agent still
  inactive, and 6485183463413515 / 2^53 = 0.7200000000000001 after the second, which
  is at least 0.6, and the agent is active after that same request, also when the
  language model then fails. A session that is active stays active over every later
  request as long as it is in the store, and a request for the session itself never
  removes it. A non-scam detection leaves the confidence as it was.
\<close>

theorem confidence_accumulation:
  assumes wf: "wf_store (sessions st)" and auth: "x_api_key = Some (API_KEY cfg)"
  shows
    "(sender (message body) = ''scammer''
      \<and> detect_scam (IS_RENDER cfg) (classifier w) (text_of (message body))
            = Some (True, Finite (double_of (9 / 10)))
      \<and> handle_message cfg w x_api_key body st = (st', evs, res)
      \<longrightarrow> confidence (session_of (sessions st') (req_sessionId body))
            = fadd (confidence (session_of (sessions st) (req_sessionId body)))
                   (fmul (Finite (double_of (9 / 10))) (Finite (double_of (4 / 10))))
          \<and> fmul (Finite (double_of (9 / 10))) (Finite (double_of (4 / 10)))
              = Finite (6485183463413515 / 18014398509481984))
     \<and> (sender (message b1) = ''scammer'' \<and> sender (message b2) = ''scammer''
        \<and> req_sessionId b1 = sid \<and> req_sessionId b2 = sid
        \<and> detect_scam (IS_RENDER cfg) (classifier w1) (text_of (message b1))
              = Some (True, Finite (double_of (9 / 10)))
        \<and> detect_scam (IS_RENDER cfg) (classifier w2) (text_of (message b2))
              = Some (True, Finite (double_of (9 / 10)))
        \<and> confidence (session_of (sessions st) sid) = Finite 0
        \<and> \<not> agent_active (session_of (sessions st) sid)
        \<and> handle_message cfg w1 x_api_key b1 st = (st1, evs1, res1)
        \<and> handle_message cfg w2 x_api_key b2 st1 = (st2, evs2, res2)
        \<longrightarrow> confidence (session_of (sessions st1) sid) = Finite (6485183463413515 / 18014398509481984)
            \<and> \<not> agent_active (session_of (sessions st1) sid)
            \<and> confidence (session_of (sessions st2) sid) = Finite (6485183463413515 / 9007199254740992)
            \<and> fle (Finite (double_of (6 / 10))) (confidence (session_of (sessions st2) sid))
            \<and> agent_active (session_of (sessions st2) sid))
     \<and> (handle_message cfg w key body st = (st', evs, res)
        \<and> map_of (sessions st) k = Some s \<and> agent_active s
        \<longrightarrow> (\<exists>s'. map_of (sessions st') k = Some s' \<and> agent_active s')
            \<or> (map_of (sessions st') k = None \<and> k \<noteq> req_sessionId body))
     \<and> (sender (message body) = ''scammer''
        \<and> detect_scam (IS_RENDER cfg) (classifier w) (text_of (message body)) = Some (False, x)
        \<and> handle_message cfg w x_api_key body st = (st', evs, res)
        \<longrightarrow> confidence (session_of (sessions st') (req_sessionId body))
            = confidence (session_of (sessions st) (req_sessionId body)))"
proof (intro conjI impI)
  assume a: "sender (message body) = ''scammer''
      \<and> detect_scam (IS_RENDER cfg) (classifier w) (text_of (message body))
            = Some (True, Finite (double_of (9 / 10)))
      \<and> handle_message cfg w x_api_key body st = (st', evs, res)"
  show "confidence (session_of (sessions st') (req_sessionId body))
            = fadd (confidence (session_of (sessions st) (req_sessionId body)))
                   (fmul (Finite (double_of (9 / 10))) (Finite (double_of (4 / 10))))"
    using step_scored_09 [OF auth _ wf, of body w st' evs res] a
    by (simp only: lit_product)
next
  show "fmul (Finite (double_of (9 / 10))) (Finite (double_of (4 / 10)))
              = Finite (6485183463413515 / 18014398509481984)"
    by (rule lit_product)
next
  assume a: "sender (message b1) = ''scammer'' \<and> sender (message b2) = ''scammer''
        \<and> req_sessionId b1 = sid \<and> req_sessionId b2 = sid
        \<and> detect_scam (IS_RENDER cfg) (classifier w1) (text_of (message b1))
              = Some (True, Finite (double_of (9 / 10)))
        \<and> detect_scam (IS_RENDER cfg) (classifier w2) (text_of (message b2))
              = Some (True, Finite (double_of (9 / 10)))
        \<and> confidence (session_of (sessions st) sid) = Finite 0
        \<and> \<not> agent_active (session_of (sessions st) sid)
        \<and> handle_message cfg w1 x_api_key b1 st = (st1, evs1, res1)
        \<and> handle_message cfg w2 x_api_key b2 st1 = (st2, evs2, res2)"
  then have h1: "handle_message cfg w1 x_api_key b1 st = (st1, evs1, res1)"
    and h2: "handle_message cfg w2 x_api_key b2 st1 = (st2, evs2, res2)"
    and s1: "sender (message b1) = ''scammer''" and s2: "sender (message b2) = ''scammer''"
    and d1: "detect_scam (IS_RENDER cfg) (classifier w1) (text_of (message b1))
              = Some (True, Finite (double_of (9 / 10)))"
    and d2: "detect_scam (IS_RENDER cfg) (classifier w2) (text_of (message b2))
              = Some (True, Finite (double_of (9 / 10)))"
    and i1: "req_sessionId b1 = sid" and i2: "req_sessionId b2 = sid"
    and c0: "confidence (session_of (sessions st) sid) = Finite 0"
    and a0: "\<not> agent_active (session_of (sessions st) sid)"
    by simp_all
  have wf1: "wf_store (sessions st1)" using handle_message_frame(1) [OF wf h1] .
  have c1: "confidence (session_of (sessions st1) sid) = Finite (6485183463413515 / 18014398509481984)"
    using step_scored_09 [OF auth s1 wf h1 d1] by (simp only: i1 c0 lit_first)
  have a1: "\<not> agent_active (session_of (sessions st1) sid)"
    using step_scored(2) [OF auth s1 wf h1 d1] a0 lit_first_below
    by (simp only: i1 c1 simp_thms)
  have c2: "confidence (session_of (sessions st2) sid) = Finite (6485183463413515 / 9007199254740992)"
    using step_scored_09 [OF auth s2 wf1 h2 d2] by (simp only: i2 c1 lit_second)
  have a2: "agent_active (session_of (sessions st2) sid)"
    using step_scored(2) [OF auth s2 wf1 h2 d2] lit_second_above
    by (simp only: i2 c2 simp_thms)
  show "confidence (session_of (sessions st1) sid) = Finite (6485183463413515 / 18014398509481984)"
    by (rule c1)
  show "\<not> agent_active (session_of (sessions st1) sid)" by (rule a1)
  show "confidence (session_of (sessions st2) sid) = Finite (6485183463413515 / 9007199254740992)"
    by (rule c2)
  show "fle (Finite (double_of (6 / 10))) (confidence (session_of (sessions st2) sid))"
    using lit_second_above by (simp only: c2)
  show "agent_active (session_of (sessions st2) sid)" by (rule a2)
next
  assume a: "handle_message cfg w key body st = (st', evs, res)
        \<and> map_of (sessions st) k = Some s \<and> agent_active s"
  then have h: "handle_message cfg w key body st = (st', evs, res)"
    and m: "map_of (sessions st) k = Some s" and act: "agent_active s" by simp_all
  note sa = step_any [OF wf h, of k]
  show "(\<exists>s'. map_of (sessions st') k = Some s' \<and> agent_active s')
            \<or> (map_of (sessions st') k = None \<and> k \<noteq> req_sessionId body)"
  proof (cases "key = Some (API_KEY cfg) \<and> sender (message body) = ''scammer''")
    case False
    then have "st' = st" using step_rejected(1) [OF _ h] by blast
    then show ?thesis using m act by simp
  next
    case True
    then have "\<exists>s'. map_of (sessions st') (req_sessionId body) = Some s'"
      using step_session [OF _ _ wf h] by blast
    then show ?thesis using sa m act by auto
  qed
next
  assume a: "sender (message body) = ''scammer''
        \<and> detect_scam (IS_RENDER cfg) (classifier w) (text_of (message body)) = Some (False, x)
        \<and> handle_message cfg w x_api_key body st = (st', evs, res)"
  show "confidence (session_of (sessions st') (req_sessionId body))
            = confidence (session_of (sessions st) (req_sessionId body))"
    using step_scored(1) [OF auth _ wf, of body w st' evs res "(False, x)"] a by simp
qed


text \<open>
  C2 as stated has the confidence grow by exactly 0.36 and reach 0.72. After the first
  such request from the empty store the confidence is neither the double 0.36 nor the
  number 36/100.
\<close>

theorem confidence_accumulation_counterexample:
  "detect_scam (IS_RENDER demo_cfg) (classifier (demo_world (\<lambda>n. False))) ''otp''
     = Some (True, Finite (double_of (9 / 10)))
   \<and> confidence (session_of (sessions empty_state) ''s1'') = Finite 0
   \<and> confidence (session_of (sessions (fst (handle_message demo_cfg (demo_world (\<lambda>n. False))
         (Some ''secret'') (demo_body ''s1'' ''scammer'' ''otp'') empty_state))) ''s1'')
       = Finite (6485183463413515 / 18014398509481984)
   \<and> (6485183463413515 / 18014398509481984 :: rat) \<noteq> double_of (36 / 100)
   \<and> (6485183463413515 / 18014398509481984 :: rat) \<noteq> 36 / 100"
proof -
  let ?w = "demo_world (\<lambda>n. False)"
  let ?b = "demo_body ''s1'' ''scammer'' ''otp''"
  obtain st1 evs1 res1 where h: "handle_message demo_cfg ?w (Some ''secret'') ?b empty_state = (st1, evs1, res1)"
    by (cases "handle_message demo_cfg ?w (Some ''secret'') ?b empty_state")
  have auth: "Some ''secret'' = Some (API_KEY demo_cfg)" by (simp add: demo_cfg_def)
  have sc: "sender (message ?b) = ''scammer''" by (simp add: demo_body_def)
  have det: "detect_scam (IS_RENDER demo_cfg) (classifier ?w) (text_of (message ?b))
               = Some (True, Finite (double_of (9 / 10)))"
    using demo_detect_otp by (simp add: demo_cfg_def demo_world_simps demo_body_def)
  have c0: "confidence (session_of (sessions empty_state) ''s1'') = Finite 0"
    by (simp add: empty_state_def session_of_def new_session_def)
  have sid: "req_sessionId ?b = ''s1''" by (simp add: demo_body_def)
  have "confidence (session_of (sessions st1) ''s1'')
          = Finite (6485183463413515 / 18014398509481984)"
    using step_scored_09 [OF auth sc wf_empty h det] by (simp only: sid c0 lit_first)
  then have c1: "confidence (session_of (sessions (fst (handle_message demo_cfg ?w
         (Some ''secret'') ?b empty_state))) ''s1'') = Finite (6485183463413515 / 18014398509481984)"
    by (simp only: h fst_conv)
  have n2: "(6485183463413515 / 18014398509481984 :: rat) \<noteq> 36 / 100" by simp
  have det': "detect_scam (IS_RENDER demo_cfg) (classifier ?w) ''otp''
               = Some (True, Finite (double_of (9 / 10)))"
    using demo_detect_otp by (simp add: demo_cfg_def demo_world_simps)
  show ?thesis using det' c0 c1 lit_036 n2 by blast
qed

theorem confidence_accumulation_witness:
  "wf_store (sessions empty_state)
   \<and> confidence (session_of (sessions (fst (handle_message demo_cfg (demo_world (\<lambda>n. False))
         (Some ''secret'') (demo_body ''s1'' ''scammer'' ''otp'') empty_state))) ''s1'')
       = Finite (6485183463413515 / 18014398509481984)
   \<and> \<not> agent_active (session_of (sessions (fst (handle_message demo_cfg (demo_world (\<lambda>n. False))
         (Some ''secret'') (demo_body ''s1'' ''scammer'' ''otp'') empty_state))) ''s1'')
   \<and> confidence (session_of (sessions (fst (handle_message demo_cfg (demo_world (\<lambda>n. False))
         (Some ''secret'') (demo_body ''s1'' ''scammer'' ''otp'')
         (fst (handle_message demo_cfg (demo_world (\<lambda>n. False))
            (Some ''secret'') (demo_body ''s1'' ''scammer'' ''otp'') empty_state))))) ''s1'')
       = Finite (6485183463413515 / 9007199254740992)
   \<and> agent_active (session_of (sessions (fst (handle_message demo_cfg (demo_world (\<lambda>n. False))
         (Some ''secret'') (demo_body ''s1'' ''scammer'' ''otp'')
         (fst (handle_message demo_cfg (demo_world (\<lambda>n. False))
            (Some ''secret'') (demo_body ''s1'' ''scammer'' ''otp'') empty_state))))) ''s1'')"
proof -
  let ?w = "demo_world (\<lambda>n. False)"
  let ?b = "demo_body ''s1'' ''scammer'' ''otp''"
  obtain st1 evs1 res1 where h1: "handle_message demo_cfg ?w (Some ''secret'') ?b empty_state = (st1, evs1, res1)"
    by (cases "handle_message demo_cfg ?w (Some ''secret'') ?b empty_state")
  obtain st2 evs2 res2 where h2: "handle_message demo_cfg ?w (Some ''secret'') ?b st1 = (st2, evs2, res2)"
    by (cases "handle_message demo_cfg ?w (Some ''secret'') ?b st1")
  have auth: "Some ''secret'' = Some (API_KEY demo_cfg)" by (simp add: demo_cfg_def)
  have sc: "sender (message ?b) = ''scammer''" by (simp add: demo_body_def)
  have sid: "req_sessionId ?b = ''s1''" by (simp add: demo_body_def)
  have det: "detect_scam (IS_RENDER demo_cfg) (classifier ?w) (text_of (message ?b))
               = Some (True, Finite (double_of (9 / 10)))"
    using demo_detect_otp by (simp add: demo_cfg_def demo_world_simps demo_body_def)
  have c0: "confidence (session_of (sessions empty_state) ''s1'') = Finite 0"
    and a0: "\<not> agent_active (session_of (sessions empty_state) ''s1'')"
    by (simp_all add: empty_state_def session_of_def new_session_def)
  note t = confidence_accumulation [OF wf_empty auth, THEN conjunct2, THEN conjunct1, rule_format,
      of ?b ?b "''s1''" ?w ?w st1 evs1 res1 st2 evs2 res2]
  have "confidence (session_of (sessions st1) ''s1'') = Finite (6485183463413515 / 18014398509481984)
            \<and> \<not> agent_active (session_of (sessions st1) ''s1'')
            \<and> confidence (session_of (sessions st2) ''s1'') = Finite (6485183463413515 / 9007199254740992)
            \<and> fle (Finite (double_of (6 / 10))) (confidence (session_of (sessions st2) ''s1''))
            \<and> agent_active (session_of (sessions st2) ''s1'')"
    using t sc sid det c0 a0 h1 h2 by blast
  moreover have e1: "fst (handle_message demo_cfg ?w (Some ''secret'') ?b empty_state) = st1"
    by (simp only: h1 fst_conv)
  moreover have e2: "fst (handle_message demo_cfg ?w (Some ''secret'') ?b st1) = st2"
    by (simp only: h2 fst_conv)
  ultimately show ?thesis using wf_empty by (simp only: simp_thms)
qed

section \<open>The handler: the callback\<close>

text \<open>
  C1, as the code has it. A session is the record stored under its id, from its
  creation until the sweep evicts it; the store is well formed (one session per id,
  stored under its own id), as it is from the empty store on. The callback is invoked
  for a session \<open>k\<close> during a request only if the request is authorized, comes from the
  scammer and names \<open>k\<close>, the session had not been reported before, and at the check of
  step 12 the session is active, not reported, has at least one of upiIds,
  phishingLinks, phoneNumbers, bankAccounts non-empty and at least 8 messages.
  \<open>callback_sent\<close> becomes true for a session only in a request in which a POST of its
  report succeeded, which in the code means that it was answered, with a status other
  than 400 to 599. Over any sequence of requests, once a delivery for \<open>k\<close> has succeeded
  the callback is not invoked for \<open>k\<close> in any later request, as long as the session has
  stayed in the store. In the two-turn scenario (the session reaches the finalize
  condition on turn 8, the delivery succeeds within the three attempts, turn 9 follows)
  the callback is invoked on turn 8, delivered, not invoked on turn 9, and
  \<open>callback_sent\<close> is true after both.
\<close>

theorem callback_reported_at_most_once:
  assumes wf: "wf_store (sessions st)"
  shows
    "(handle_message cfg w x_api_key body st = (st', evs, res) \<and> invoked k evs
      \<longrightarrow> x_api_key = Some (API_KEY cfg) \<and> sender (message body) = ''scammer''
          \<and> k = req_sessionId body
          \<and> \<not> callback_sent (session_of (sessions st) k)
          \<and> (\<exists>s6. agent_active s6 \<and> \<not> callback_sent s6
                \<and> (get_list (intelligence s6) ''upiIds'' \<noteq> []
                    \<or> get_list (intelligence s6) ''phishingLinks'' \<noteq> []
                    \<or> get_list (intelligence s6) ''phoneNumbers'' \<noteq> []
                    \<or> get_list (intelligence s6) ''bankAccounts'' \<noteq> [])
                \<and> 8 \<le> total_messages s6
                \<and> map_of (sessions st') k
                    = Some (if delivered k evs then s6\<lparr>callback_sent := True\<rparr> else s6)))
     \<and> (handle_message cfg w x_api_key body st = (st', evs, res)
        \<and> map_of (sessions st') k = Some s' \<and> callback_sent s'
        \<and> \<not> callback_sent (session_of (sessions st) k)
        \<longrightarrow> delivered k evs \<and> invoked k evs
            \<and> (post_succeeds (post_answer w 0) \<or> post_succeeds (post_answer w 1)
                \<or> post_succeeds (post_answer w 2)))
     \<and> (i < j \<and> j < length (run cfg rqs st)
        \<and> delivered k (fst (snd (run cfg rqs st ! i)))
        \<and> (\<forall>m. i \<le> m \<and> m < j \<longrightarrow> map_of (sessions (fst (run cfg rqs st ! m))) k \<noteq> None)
        \<longrightarrow> \<not> invoked k (fst (snd (run cfg rqs st ! j))))
     \<and> (x_api_key = Some (API_KEY cfg)
        \<and> sender (message b8) = ''scammer'' \<and> sender (message b9) = ''scammer''
        \<and> req_sessionId b8 = k \<and> req_sessionId b9 = k
        \<and> handle_message cfg w8 x_api_key b8 st = (st8, evs8, Inr r8)
        \<and> handle_message cfg w9 x_api_key b9 st8 = (st9, evs9, res9)
        \<and> \<not> callback_sent (session_of (sessions st) k)
        \<and> agent_active (session_of (sessions st8) k)
        \<and> should_finalize (session_of (sessions st8) k)
        \<and> (post_succeeds (post_answer w8 0) \<or> post_succeeds (post_answer w8 1)
            \<or> post_succeeds (post_answer w8 2))
        \<longrightarrow> invoked k evs8 \<and> delivered k evs8 \<and> \<not> invoked k evs9
            \<and> callback_sent (session_of (sessions st8) k)
            \<and> callback_sent (session_of (sessions st9) k))
     \<and> (post_succeeds a \<longleftrightarrow> (\<exists>code. a = Status code \<and> (code < 400 \<or> 600 \<le> code)))"
  unfolding post_ok_def [symmetric]
proof (intro conjI)
  show "handle_message cfg w x_api_key body st = (st', evs, res) \<and> invoked k evs
      \<longrightarrow> x_api_key = Some (API_KEY cfg) \<and> sender (message body) = ''scammer''
          \<and> k = req_sessionId body
          \<and> \<not> callback_sent (session_of (sessions st) k)
          \<and> (\<exists>s6. agent_active s6 \<and> \<not> callback_sent s6
                \<and> (get_list (intelligence s6) ''upiIds'' \<noteq> []
                    \<or> get_list (intelligence s6) ''phishingLinks'' \<noteq> []
                    \<or> get_list (intelligence s6) ''phoneNumbers'' \<noteq> []
                    \<or> get_list (intelligence s6) ''bankAccounts'' \<noteq> [])
                \<and> 8 \<le> total_messages s6
                \<and> map_of (sessions st') k
                    = Some (if delivered k evs then s6\<lparr>callback_sent := True\<rparr> else s6))"
  proof
    assume a: "handle_message cfg w x_api_key body st = (st', evs, res) \<and> invoked k evs"
    note si = step_invoked [OF wf a [THEN conjunct1] a [THEN conjunct2]]
    then obtain s6 where due: "callback_due s6"
      and e: "evs = callback_trace (GUVI_CALLBACK_URL cfg) (post_ok w) (report s6)
                         @ [if post_ok w 0 \<or> post_ok w 1 \<or> post_ok w 2
                            then LogInfo k else LogWarning k 3]"
      and m: "map_of (sessions st') k
                   = Some (if post_ok w 0 \<or> post_ok w 1 \<or> post_ok w 2
                           then s6\<lparr>callback_sent := True\<rparr> else s6)"
      by blast
    have d: "delivered k evs \<longleftrightarrow> post_ok w 0 \<or> post_ok w 1 \<or> post_ok w 2"
      unfolding e by (simp add: delivered_simps)
    have "agent_active s6 \<and> \<not> callback_sent s6
                \<and> (get_list (intelligence s6) ''upiIds'' \<noteq> []
                    \<or> get_list (intelligence s6) ''phishingLinks'' \<noteq> []
                    \<or> get_list (intelligence s6) ''phoneNumbers'' \<noteq> []
                    \<or> get_list (intelligence s6) ''bankAccounts'' \<noteq> [])
                \<and> 8 \<le> total_messages s6
                \<and> map_of (sessions st') k
                    = Some (if delivered k evs then s6\<lparr>callback_sent := True\<rparr> else s6)"
      using due m d unfolding callback_due_def should_finalize_iff by simp
    then show "x_api_key = Some (API_KEY cfg) \<and> sender (message body) = ''scammer''
          \<and> k = req_sessionId body
          \<and> \<not> callback_sent (session_of (sessions st) k)
          \<and> (\<exists>s6. agent_active s6 \<and> \<not> callback_sent s6
                \<and> (get_list (intelligence s6) ''upiIds'' \<noteq> []
                    \<or> get_list (intelligence s6) ''phishingLinks'' \<noteq> []
                    \<or> get_list (intelligence s6) ''phoneNumbers'' \<noteq> []
                    \<or> get_list (intelligence s6) ''bankAccounts'' \<noteq> [])
                \<and> 8 \<le> total_messages s6
                \<and> map_of (sessions st') k
                    = Some (if delivered k evs then s6\<lparr>callback_sent := True\<rparr> else s6))"
      using si by blast
  qed
next
  show "handle_message cfg w x_api_key body st = (st', evs, res)
        \<and> map_of (sessions st') k = Some s' \<and> callback_sent s'
        \<and> \<not> callback_sent (session_of (sessions st) k)
        \<longrightarrow> delivered k evs \<and> invoked k evs
            \<and> (post_ok w 0 \<or> post_ok w 1 \<or> post_ok w 2)"
  proof
    assume a: "handle_message cfg w x_api_key body st = (st', evs, res)
        \<and> map_of (sessions st') k = Some s' \<and> callback_sent s'
        \<and> \<not> callback_sent (session_of (sessions st) k)"
    then have h: "handle_message cfg w x_api_key body st = (st', evs, res)" by simp
    have d: "delivered k evs \<and> (post_ok w 0 \<or> post_ok w 1 \<or> post_ok w 2)"
      using step_any [OF wf h, of k] a by blast
    have "invoked k evs"
    proof (cases "x_api_key = Some (API_KEY cfg) \<and> sender (message body) = ''scammer''")
      case False
      then have "evs = []" using step_rejected(2) [OF _ h] by blast
      then show ?thesis using d by (simp add: delivered_simps)
    next
      case True
      then have auth: "x_api_key = Some (API_KEY cfg)"
        and sc: "sender (message body) = ''scammer''" by simp_all
      have kk: "k = req_sessionId body"
        using step_session [OF auth sc wf h] d by blast
      from auth sc wf h show ?thesis
      proof (cases rule: handle_message_cases)
        case detect_fails
        then show ?thesis using d by (simp add: delivered_simps)
      next
        case (reply_fails d')
        then show ?thesis using d by (simp add: delivered_simps)
      next
        case (replied d' i' r s6)
        have id6: "sessionId s6 = req_sessionId body"
          using replied(2) loaded_sessionId [OF wf] by (simp add: scored_fields)
        show ?thesis
        proof (cases "callback_due s6")
          case False
          then show ?thesis using replied(4) d by (simp add: delivered_simps)
        next
          case due: True
          have okk: "post_ok w 0 \<or> post_ok w 1 \<or> post_ok w 2" using d by simp
          show ?thesis using replied(5) [OF due okk] id6 kk
            by (simp add: invoked_simps report_sessionId)
        qed
      qed
    qed
    then show "delivered k evs \<and> invoked k evs
            \<and> (post_ok w 0 \<or> post_ok w 1 \<or> post_ok w 2)"
      using d by simp
  qed
next
  show "i < j \<and> j < length (run cfg rqs st)
        \<and> delivered k (fst (snd (run cfg rqs st ! i)))
        \<and> (\<forall>m. i \<le> m \<and> m < j \<longrightarrow> map_of (sessions (fst (run cfg rqs st ! m))) k \<noteq> None)
        \<longrightarrow> \<not> invoked k (fst (snd (run cfg rqs st ! j)))"
    using run_delivered_once [OF wf, of i j cfg rqs k] by blast
next
  show "x_api_key = Some (API_KEY cfg)
        \<and> sender (message b8) = ''scammer'' \<and> sender (message b9) = ''scammer''
        \<and> req_sessionId b8 = k \<and> req_sessionId b9 = k
        \<and> handle_message cfg w8 x_api_key b8 st = (st8, evs8, Inr r8)
        \<and> handle_message cfg w9 x_api_key b9 st8 = (st9, evs9, res9)
        \<and> \<not> callback_sent (session_of (sessions st) k)
        \<and> agent_active (session_of (sessions st8) k)
        \<and> should_finalize (session_of (sessions st8) k)
        \<and> (post_ok w8 0 \<or> post_ok w8 1 \<or> post_ok w8 2)
        \<longrightarrow> invoked k evs8 \<and> delivered k evs8 \<and> \<not> invoked k evs9
            \<and> callback_sent (session_of (sessions st8) k)
            \<and> callback_sent (session_of (sessions st9) k)"
    using step_two_turns [OF wf, of x_api_key cfg b8 b9 k w8 st8 evs8 r8 w9 st9 evs9 res9]
    by blast
next
  show "post_succeeds a \<longleftrightarrow> (\<exists>code. a = Status code \<and> (code < 400 \<or> 600 \<le> code))"
    by (cases a) (auto simp: post_succeeds_def raise_for_status_def)
qed

theorem callback_reported_at_most_once_witness:
  "wf_store (sessions demo_state7)
   \<and> invoked ''s1'' (fst (snd (handle_message demo_cfg (demo_world (\<lambda>n. n = 2)) (Some ''secret'')
         (demo_body ''s1'' ''scammer'' ''hi'') demo_state7)))
   \<and> delivered ''s1'' (fst (snd (handle_message demo_cfg (demo_world (\<lambda>n. n = 2)) (Some ''secret'')
         (demo_body ''s1'' ''scammer'' ''hi'') demo_state7)))
   \<and> \<not> invoked ''s1'' (fst (snd (handle_message demo_cfg (demo_world (\<lambda>n. True)) (Some ''secret'')
         (demo_body ''s1'' ''scammer'' ''hello'')
         (fst (handle_message demo_cfg (demo_world (\<lambda>n. n = 2)) (Some ''secret'')
            (demo_body ''s1'' ''scammer'' ''hi'') demo_state7)))))
   \<and> callback_sent (session_of (sessions (fst (handle_message demo_cfg (demo_world (\<lambda>n. True))
         (Some ''secret'') (demo_body ''s1'' ''scammer'' ''hello'')
         (fst (handle_message demo_cfg (demo_world (\<lambda>n. n = 2)) (Some ''secret'')
            (demo_body ''s1'' ''scammer'' ''hi'') demo_state7))))) ''s1'')"
proof -
  let ?w8 = "demo_world (\<lambda>n. n = 2)" and ?w9 = "demo_world (\<lambda>n. True)"
  let ?b8 = "demo_body ''s1'' ''scammer'' ''hi''" and ?b9 = "demo_body ''s1'' ''scammer'' ''hello''"
  define st8 where "st8 = fst (handle_message demo_cfg ?w8 (Some ''secret'') ?b8 demo_state7)"
  define evs8 where "evs8 = fst (snd (handle_message demo_cfg ?w8 (Some ''secret'') ?b8 demo_state7))"
  define st9 where "st9 = fst (handle_message demo_cfg ?w9 (Some ''secret'') ?b9 st8)"
  define evs9 where "evs9 = fst (snd (handle_message demo_cfg ?w9 (Some ''secret'') ?b9 st8))"
  define res9 where "res9 = snd (snd (handle_message demo_cfg ?w9 (Some ''secret'') ?b9 st8))"
  have s8: "st8 = \<lparr>sessions = [(''s1'', demo_session7\<lparr>total_messages := 8, callback_sent := True\<rparr>)],
       agent_chains = [(''s1'', [(''hi'', ''ok'')])]\<rparr>"
    unfolding st8_def demo_turn8_delivered by simp
  have h8: "handle_message demo_cfg ?w8 (Some ''secret'') ?b8 demo_state7
              = (st8, evs8, Inr \<lparr>status = ''success'', reply = ''ok''\<rparr>)"
    unfolding st8_def evs8_def demo_turn8_delivered by simp
  have h9: "handle_message demo_cfg ?w9 (Some ''secret'') ?b9 st8 = (st9, evs9, res9)"
    by (simp add: st9_def evs9_def res9_def)
  have auth: "Some ''secret'' = Some (API_KEY demo_cfg)" by (simp add: demo_cfg_def)
  have sc: "sender (message ?b8) = ''scammer''" "sender (message ?b9) = ''scammer''"
    and ids: "req_sessionId ?b8 = ''s1''" "req_sessionId ?b9 = ''s1''"
    by (simp_all add: demo_body_def)
  have ncs: "\<not> callback_sent (session_of (sessions demo_state7) ''s1'')"
    by (simp add: demo_state7_def demo_session7_def session_of_def)
  have act: "agent_active (session_of (sessions st8) ''s1'')"
    unfolding s8 by (simp add: demo_session7_def session_of_def)
  have fin: "should_finalize (session_of (sessions st8) ''s1'')"
    unfolding s8 by (simp add: demo_session7_def session_of_def should_finalize_def get_list_def)
  have ok: "post_succeeds (post_answer ?w8 0) \<or> post_succeeds (post_answer ?w8 1)
            \<or> post_succeeds (post_answer ?w8 2)"
    using demo_world_simps(3) [of "\<lambda>n. n = 2" 2] by (simp add: post_ok_def)
  note t = callback_reported_at_most_once [OF wf_demo7, THEN conjunct2, THEN conjunct2,
      THEN conjunct2, THEN conjunct1, rule_format,
      of "Some ''secret''" demo_cfg ?b8 ?b9 "''s1''" ?w8 st8 evs8
         "\<lparr>status = ''success'', reply = ''ok''\<rparr>" ?w9 st9 evs9 res9]
  have "invoked ''s1'' evs8 \<and> delivered ''s1'' evs8 \<and> \<not> invoked ''s1'' evs9
            \<and> callback_sent (session_of (sessions st8) ''s1'')
            \<and> callback_sent (session_of (sessions st9) ''s1'')"
    using t auth sc ids h8 h9 ncs act fin ok by blast
  then show ?thesis
    using wf_demo7 unfolding st9_def evs9_def st8_def evs8_def by blast
qed

text \<open>
  C1 as stated has no delivery after the first for a session, whatever happens in
  between. In the run \<open>demo_requests\<close> from \<open>demo_state7\<close>, all of whose requests are
  authorized, the report of s1 is delivered in request 0; request 1, for s2 and more
  than a day later, evicts s1; the next request creates s1 again, and in request 9,
  its eighth since, the callback is invoked for s1 and its report delivered a second
  time.
\<close>

theorem callback_reported_at_most_once_counterexample:
  "wf_store (sessions demo_state7)
   \<and> map (fst \<circ> snd) demo_requests = replicate 10 (Some (API_KEY demo_cfg))
   \<and> length (run demo_cfg demo_requests demo_state7) = 10
   \<and> delivered ''s1'' (fst (snd (run demo_cfg demo_requests demo_state7 ! 0)))
   \<and> map_of (sessions (fst (run demo_cfg demo_requests demo_state7 ! 1))) ''s1'' = None
   \<and> invoked ''s1'' (fst (snd (run demo_cfg demo_requests demo_state7 ! 9)))
   \<and> delivered ''s1'' (fst (snd (run demo_cfg demo_requests demo_state7 ! 9)))"
proof -
  have 1: "map (fst \<circ> snd) demo_requests = replicate 10 (Some (API_KEY demo_cfg))"
    by (simp add: demo_requests_def demo_cfg_def numeral_eq_Suc)
  have 2: "length (run demo_cfg demo_requests demo_state7) = 10"
    by (simp only: demo_run) simp
  have 3: "delivered ''s1'' (fst (snd (run demo_cfg demo_requests demo_state7 ! 0)))"
    by (simp only: demo_run) (simp add: delivered_def)
  have 4: "map_of (sessions (fst (run demo_cfg demo_requests demo_state7 ! 1))) ''s1'' = None"
    by (simp only: demo_run) simp
  have 5: "invoked ''s1'' (fst (snd (run demo_cfg demo_requests demo_state7 ! 9)))"
    by (simp only: demo_run) (simp add: invoked_def report_def demo_session7_def)
  have 6: "delivered ''s1'' (fst (snd (run demo_cfg demo_requests demo_state7 ! 9)))"
    by (simp only: demo_run) (simp add: delivered_def)
  show ?thesis using wf_demo7 1 2 3 4 5 6 by blast
qed

text \<open>
  C9, as the code has it. An attempt fails when \<open>requests.post\<close> raises a
  \<open>RequestException\<close> or the response has a status from 400 to 599, for which
  \<open>raise_for_status\<close> raises; a response with any other status, 2xx or not, is a
  success. One call of \<open>send_guvi_callback\<close> makes at most 3 POSTs, each with a timeout
  of 10 seconds, stops at the first that succeeds, and sleeps 1 s before the second and
  2 s before the third; a success marks the session and is logged, three failures are
  only logged as a warning and leave the store as it was. In a request whose callback
  fails three times the caller still receives status "success" with the reply, no
  exception leaves the handler, and the session is left unreported and still due, so
  that the next request for it that is answered calls the callback again, whose
  attempts depend on the endpoint's answers during that request alone.
\<close>

theorem callback_retry_budget:
  assumes wf: "wf_store (sessions st)"
  shows
    "(\<not> post_succeeds a \<longleftrightarrow>
        a = Raised \<or> (\<exists>code. a = Status code \<and> 400 \<le> code \<and> code < 600))
     \<and> send_guvi_callback cfg answer sm sid =
       (let s = session_of sm sid; P = Post (GUVI_CALLBACK_URL cfg) (report s) 10
        in if post_succeeds (answer 0)
           then (mark_callback_sent sm (sessionId s), [P, LogInfo (sessionId s)])
           else if post_succeeds (answer 1)
           then (mark_callback_sent sm (sessionId s),
                 [P, Sleep (Finite 1), P, LogInfo (sessionId s)])
           else if post_succeeds (answer 2)
           then (mark_callback_sent sm (sessionId s),
                 [P, Sleep (Finite 1), P, Sleep (Finite 2), P, LogInfo (sessionId s)])
           else (sm, [P, Sleep (Finite 1), P, Sleep (Finite 2), P,
                      LogWarning (sessionId s) 3]))
     \<and> (handle_message cfg w x_api_key body st = (st', evs, res) \<and> invoked k evs
        \<and> \<not> post_succeeds (post_answer w 0) \<and> \<not> post_succeeds (post_answer w 1)
        \<and> \<not> post_succeeds (post_answer w 2)
        \<longrightarrow> (\<exists>r p. res = Inr \<lparr>status = ''success'', reply = r\<rparr> \<and> p_sessionId p = k
                 \<and> evs = [Post (GUVI_CALLBACK_URL cfg) p 10, Sleep (Finite 1),
                          Post (GUVI_CALLBACK_URL cfg) p 10, Sleep (Finite 2),
                          Post (GUVI_CALLBACK_URL cfg) p 10, LogWarning k 3])
            \<and> \<not> callback_sent (session_of (sessions st') k)
            \<and> agent_active (session_of (sessions st') k)
            \<and> should_finalize (session_of (sessions st') k))
     \<and> (x_api_key = Some (API_KEY cfg) \<and> sender (message body) = ''scammer''
        \<and> handle_message cfg w x_api_key body st = (st', evs, Inr r)
        \<and> \<not> callback_sent (session_of (sessions st) (req_sessionId body))
        \<and> agent_active (session_of (sessions st') (req_sessionId body))
        \<and> should_finalize (session_of (sessions st') (req_sessionId body))
        \<longrightarrow> (\<exists>p. p_sessionId p = req_sessionId body
                 \<and> evs = callback_trace (GUVI_CALLBACK_URL cfg)
                           (\<lambda>n. post_succeeds (post_answer w n)) p
                           @ [if post_succeeds (post_answer w 0) \<or> post_succeeds (post_answer w 1)
                                 \<or> post_succeeds (post_answer w 2)
                              then LogInfo (req_sessionId body)
                              else LogWarning (req_sessionId body) 3]))"
proof (intro conjI)
  show "\<not> post_succeeds a \<longleftrightarrow>
        a = Raised \<or> (\<exists>code. a = Status code \<and> 400 \<le> code \<and> code < 600)"
    by (cases a) (simp_all add: post_succeeds_def raise_for_status_def)
next
  show "send_guvi_callback cfg answer sm sid =
       (let s = session_of sm sid; P = Post (GUVI_CALLBACK_URL cfg) (report s) 10
        in if post_succeeds (answer 0)
           then (mark_callback_sent sm (sessionId s), [P, LogInfo (sessionId s)])
           else if post_succeeds (answer 1)
           then (mark_callback_sent sm (sessionId s),
                 [P, Sleep (Finite 1), P, LogInfo (sessionId s)])
           else if post_succeeds (answer 2)
           then (mark_callback_sent sm (sessionId s),
                 [P, Sleep (Finite 1), P, Sleep (Finite 2), P, LogInfo (sessionId s)])
           else (sm, [P, Sleep (Finite 1), P, Sleep (Finite 2), P,
                      LogWarning (sessionId s) 3]))"
    unfolding send_guvi_callback_eq callback_trace_def Let_def by simp
next
  show "handle_message cfg w x_api_key body st = (st', evs, res) \<and> invoked k evs
        \<and> \<not> post_succeeds (post_answer w 0) \<and> \<not> post_succeeds (post_answer w 1)
        \<and> \<not> post_succeeds (post_answer w 2)
        \<longrightarrow> (\<exists>r p. res = Inr \<lparr>status = ''success'', reply = r\<rparr> \<and> p_sessionId p = k
                 \<and> evs = [Post (GUVI_CALLBACK_URL cfg) p 10, Sleep (Finite 1),
                          Post (GUVI_CALLBACK_URL cfg) p 10, Sleep (Finite 2),
                          Post (GUVI_CALLBACK_URL cfg) p 10, LogWarning k 3])
            \<and> \<not> callback_sent (session_of (sessions st') k)
            \<and> agent_active (session_of (sessions st') k)
            \<and> should_finalize (session_of (sessions st') k)"
  proof
    assume a: "handle_message cfg w x_api_key body st = (st', evs, res) \<and> invoked k evs
        \<and> \<not> post_succeeds (post_answer w 0) \<and> \<not> post_succeeds (post_answer w 1)
        \<and> \<not> post_succeeds (post_answer w 2)"
    then have h: "handle_message cfg w x_api_key body st = (st', evs, res)"
      and inv: "invoked k evs" and nok: "\<not> (post_ok w 0 \<or> post_ok w 1 \<or> post_ok w 2)"
      by (simp_all add: post_ok_def)
    note si = step_invoked [OF wf h inv]
    then obtain r s6 where res: "res = Inr \<lparr>status = ''success'', reply = r\<rparr>"
      and due: "callback_due s6"
      and e: "evs = callback_trace (GUVI_CALLBACK_URL cfg) (post_ok w) (report s6)
                      @ [LogWarning k 3]"
      and m: "map_of (sessions st') k = Some s6"
      using nok by auto
    have so: "session_of (sessions st') k = s6" using m by (simp add: session_of_def)
    have pk: "p_sessionId (report s6) = k" using inv unfolding e by (simp add: invoked_simps)
    have e': "evs = [Post (GUVI_CALLBACK_URL cfg) (report s6) 10, Sleep (Finite 1),
                     Post (GUVI_CALLBACK_URL cfg) (report s6) 10, Sleep (Finite 2),
                     Post (GUVI_CALLBACK_URL cfg) (report s6) 10, LogWarning k 3]"
      unfolding e callback_trace_def using nok by simp
    show "(\<exists>r p. res = Inr \<lparr>status = ''success'', reply = r\<rparr> \<and> p_sessionId p = k
                 \<and> evs = [Post (GUVI_CALLBACK_URL cfg) p 10, Sleep (Finite 1),
                          Post (GUVI_CALLBACK_URL cfg) p 10, Sleep (Finite 2),
                          Post (GUVI_CALLBACK_URL cfg) p 10, LogWarning k 3])
            \<and> \<not> callback_sent (session_of (sessions st') k)
            \<and> agent_active (session_of (sessions st') k)
            \<and> should_finalize (session_of (sessions st') k)"
      using res pk e' due unfolding so callback_due_def by blast
  qed
next
  show "x_api_key = Some (API_KEY cfg) \<and> sender (message body) = ''scammer''
        \<and> handle_message cfg w x_api_key body st = (st', evs, Inr r)
        \<and> \<not> callback_sent (session_of (sessions st) (req_sessionId body))
        \<and> agent_active (session_of (sessions st') (req_sessionId body))
        \<and> should_finalize (session_of (sessions st') (req_sessionId body))
        \<longrightarrow> (\<exists>p. p_sessionId p = req_sessionId body
                 \<and> evs = callback_trace (GUVI_CALLBACK_URL cfg)
                           (\<lambda>n. post_succeeds (post_answer w n)) p
                           @ [if post_succeeds (post_answer w 0) \<or> post_succeeds (post_answer w 1)
                                 \<or> post_succeeds (post_answer w 2)
                              then LogInfo (req_sessionId body)
                              else LogWarning (req_sessionId body) 3])"
  proof
    assume a: "x_api_key = Some (API_KEY cfg) \<and> sender (message body) = ''scammer''
        \<and> handle_message cfg w x_api_key body st = (st', evs, Inr r)
        \<and> \<not> callback_sent (session_of (sessions st) (req_sessionId body))
        \<and> agent_active (session_of (sessions st') (req_sessionId body))
        \<and> should_finalize (session_of (sessions st') (req_sessionId body))"
    then have h: "handle_message cfg w x_api_key body st = (st', evs, Inr r)" by blast
    have inv: "invoked (req_sessionId body) evs"
      using step_due [OF wf _ _ h refl] a by blast
    note si = step_invoked [OF wf h inv]
    then obtain s6 where
      e: "evs = callback_trace (GUVI_CALLBACK_URL cfg) (post_ok w) (report s6)
                 @ [if post_ok w 0 \<or> post_ok w 1 \<or> post_ok w 2
                    then LogInfo (req_sessionId body) else LogWarning (req_sessionId body) 3]"
      by blast
    have pk: "p_sessionId (report s6) = req_sessionId body"
      using inv unfolding e by (simp add: invoked_simps split: if_splits)
    have "\<exists>p. p_sessionId p = req_sessionId body
                 \<and> evs = callback_trace (GUVI_CALLBACK_URL cfg) (post_ok w) p
                           @ [if post_ok w 0 \<or> post_ok w 1 \<or> post_ok w 2
                              then LogInfo (req_sessionId body)
                              else LogWarning (req_sessionId body) 3]"
      using pk e by blast
    then show "\<exists>p. p_sessionId p = req_sessionId body
                 \<and> evs = callback_trace (GUVI_CALLBACK_URL cfg)
                           (\<lambda>n. post_succeeds (post_answer w n)) p
                           @ [if post_succeeds (post_answer w 0) \<or> post_succeeds (post_answer w 1)
                                 \<or> post_succeeds (post_answer w 2)
                              then LogInfo (req_sessionId body)
                              else LogWarning (req_sessionId body) 3]"
      unfolding post_ok_eta [symmetric] .
  qed
qed

theorem callback_retry_budget_witness:
  "wf_store (sessions demo_state7)
   \<and> invoked ''s1'' (fst (snd (handle_message demo_cfg (demo_world_at 0 demo_errors)
         (Some ''secret'') (demo_body ''s1'' ''scammer'' ''hi'') demo_state7)))
   \<and> \<not> post_succeeds (post_answer (demo_world_at 0 demo_errors) 0)
   \<and> \<not> post_succeeds (post_answer (demo_world_at 0 demo_errors) 1)
   \<and> \<not> post_succeeds (post_answer (demo_world_at 0 demo_errors) 2)
   \<and> snd (snd (handle_message demo_cfg (demo_world_at 0 demo_errors) (Some ''secret'')
         (demo_body ''s1'' ''scammer'' ''hi'') demo_state7))
       = Inr \<lparr>status = ''success'', reply = ''ok''\<rparr>
   \<and> \<not> callback_sent (session_of (sessions (fst (handle_message demo_cfg
         (demo_world_at 0 demo_errors)
         (Some ''secret'') (demo_body ''s1'' ''scammer'' ''hi'') demo_state7))) ''s1'')
   \<and> should_finalize (session_of (sessions (fst (handle_message demo_cfg
         (demo_world_at 0 demo_errors)
         (Some ''secret'') (demo_body ''s1'' ''scammer'' ''hi'') demo_state7))) ''s1'')"
proof -
  let ?w = "demo_world_at 0 demo_errors"
  let ?b = "demo_body ''s1'' ''scammer'' ''hi''"
  define st8 where "st8 = fst (handle_message demo_cfg ?w (Some ''secret'') ?b demo_state7)"
  define evs8 where "evs8 = fst (snd (handle_message demo_cfg ?w (Some ''secret'') ?b demo_state7))"
  define res8 where "res8 = snd (snd (handle_message demo_cfg ?w (Some ''secret'') ?b demo_state7))"
  have h8: "handle_message demo_cfg ?w (Some ''secret'') ?b demo_state7 = (st8, evs8, res8)"
    by (simp add: st8_def evs8_def res8_def)
  have r8: "res8 = Inr \<lparr>status = ''success'', reply = ''ok''\<rparr>"
    unfolding res8_def demo_turn8_errors by simp
  have inv: "invoked ''s1'' evs8"
    unfolding evs8_def demo_turn8_errors by (simp add: invoked_def report_def demo_session7_def)
  have nok: "\<not> post_succeeds (post_answer ?w 0)" "\<not> post_succeeds (post_answer ?w 1)"
    "\<not> post_succeeds (post_answer ?w 2)"
    by (simp_all add: demo_world_at_def demo_errors_def post_succeeds_def raise_for_status_def)
  note t = callback_retry_budget [OF wf_demo7, THEN conjunct2, THEN conjunct2, THEN conjunct1,
      rule_format, of demo_cfg ?w "Some ''secret''" ?b st8 evs8 res8 "''s1''"]
  have "\<not> callback_sent (session_of (sessions st8) ''s1'')
        \<and> should_finalize (session_of (sessions st8) ''s1'')"
    using t h8 inv nok by blast
  then show ?thesis
    using wf_demo7 inv nok r8 unfolding st8_def evs8_def res8_def by blast
qed

text \<open>
  C9 as stated counts every answer without a 2xx status as a failed attempt. An
  endpoint that answers 304 to every attempt is not retried: the request for the
  session of \<open>demo_state7\<close>, which is due, makes one POST, logs the delivery and marks
  the session as reported.
\<close>

theorem callback_retry_budget_counterexample:
  "post_answer (demo_world_at 0 (\<lambda>n. Status 304)) 0 = Status 304
   \<and> post_answer (demo_world_at 0 (\<lambda>n. Status 304)) 1 = Status 304
   \<and> post_answer (demo_world_at 0 (\<lambda>n. Status 304)) 2 = Status 304
   \<and> \<not> callback_sent (session_of (sessions demo_state7) ''s1'')
   \<and> handle_message demo_cfg (demo_world_at 0 (\<lambda>n. Status 304)) (Some ''secret'')
       (demo_body ''s1'' ''scammer'' ''hi'') demo_state7
     = (\<lparr>sessions = [(''s1'', demo_session7\<lparr>total_messages := 8, callback_sent := True\<rparr>)],
         agent_chains = [(''s1'', [(''hi'', ''ok'')])]\<rparr>,
        [Post (GUVI_CALLBACK_URL demo_cfg) (report (demo_session7\<lparr>total_messages := 8\<rparr>)) 10,
         LogInfo ''s1''],
        Inr \<lparr>status = ''success'', reply = ''ok''\<rparr>)
   \<and> callback_sent (session_of (sessions (fst (handle_message demo_cfg
         (demo_world_at 0 (\<lambda>n. Status 304)) (Some ''secret'')
         (demo_body ''s1'' ''scammer'' ''hi'') demo_state7))) ''s1'')"
  by code_simp

end
